theory Spec2Isabelle
  imports Complex_Main "HOL-Library.Word" "HOL-Library.AList" "HOL-Library.Multiset"
    "HOL-Library.Sublist"
begin

section \<open>Data model of \<open>main.go\<close>\<close>

text \<open>
  The aggregation engine of the fraud detector is the single function
  \<open>generateReport\<close>.  Go's \<open>int64\<close> is a 64-bit word read as two's complement
  (\<open>+\<close> and \<open>-\<close> wrap, \<open>x > 0\<close> is the signed comparison \<open>0 <s x\<close>); Go's \<open>int\<close>
  counters, which only ever count slice elements, are \<open>int\<close>.  A \<open>float64\<close> that is
  only compared or truncated (the timestamps, decoded from JSON and therefore finite) is
  the real number it denotes; where the code computes in \<open>float64\<close> every operation
  rounds through \<open>f64\<close> of the environment below.  A Go map is an association list with
  distinct keys, read with \<open>map_of\<close> and written with \<open>AList.update\<close>; a
  \<open>map[string]bool\<close> that only ever stores \<open>true\<close> is the set of its keys.
\<close>

type_synonym int64 = "64 word"

record TopBet =
  Amount :: int64
  RoundID :: string
  Time :: string

record TopWin =
  Amount :: int64
  RoundID :: string
  Time :: string

record SuspiciousEvent =
  Type :: string
  Description :: string
  PlayerID :: string
  Timestamp :: string
  Details :: string

record TimeStat =
  Hour :: int
  TotalBets :: int
  TotalWins :: int
  TotalBetAmount :: int64
  TotalWinAmount :: int64

record GameStat =
  GameID :: string
  RTP :: real
  TotalBetAmount :: int64
  TotalWinAmount :: int64
  TotalBets :: int
  TotalWins :: int
  Players :: int

record PlayerStat =
  PlayerID :: string
  RTP :: real
  TotalBetAmount :: int64
  TotalWinAmount :: int64
  NetResult :: int64
  LastBalance :: int64
  TotalBets :: int
  TotalWins :: int
  TopBets :: "TopBet list"
  TopWins :: "TopWin list"

record Summary =
  TotalBets :: int
  TotalWins :: int
  TotalBetAmount :: int64
  TotalWinAmount :: int64
  NetResult :: int64
  RTP :: real
  UniquePlayers :: int
  UniqueGames :: int
  TimeSpan :: string

record Report =
  Summary :: Summary
  PlayerStats :: "(string \<times> PlayerStat) list"
  GameStats :: "(string \<times> GameStat) list"
  TimeStats :: "TimeStat list"
  SuspiciousEvents :: "SuspiciousEvent list"

text \<open>
  The fields of \<open>GameData\<close> that \<open>generateReport\<close> reads.  The remaining fields of the
  Go struct (level, logger, caller, command, version, hostname, platform, operator,
  currency, room, mod, step number) are decoded but never read by the aggregation.
\<close>

record GameData =
  Message :: string
  GameID :: string
  PlayerID :: string
  RoundID :: string
  Timestamp :: real
  BetID :: string
  WinID :: string
  Bet :: int64
  Win :: int64
  Balance :: int64

text \<open>
  What the function takes from the Go runtime and library, as parameters:
  \<^item> \<open>localHour sec\<close> is \<open>time.Unix(sec, 0).Hour()\<close> in the process's time zone;
  \<^item> \<open>formatTime sec\<close> is \<open>time.Unix(sec, 0).Format("2006-01-02 15:04:05")\<close>;
  \<^item> \<open>f64 x\<close> is the \<open>float64\<close> nearest to the exact result \<open>x\<close>;
  \<^item> \<open>slicePerm n lessFn\<close> is the arrangement \<open>sort.Slice\<close> produces on a slice of
    length \<open>n\<close>, as the list of the original indices in their final order, where
    \<open>lessFn i j\<close> compares the elements originally at \<open>i\<close> and \<open>j\<close>;
  \<^item> \<open>sprintfDetails r n\<close> is \<open>fmt.Sprintf("RTP: %.2f%%, Bets: %d", r, n)\<close>.
\<close>

record env =
  localHour :: "int \<Rightarrow> int"
  formatTime :: "int \<Rightarrow> string"
  f64 :: "real \<Rightarrow> real"
  slicePerm :: "nat \<Rightarrow> (nat \<Rightarrow> nat \<Rightarrow> bool) \<Rightarrow> nat list"
  sprintfDetails :: "real \<Rightarrow> int \<Rightarrow> string"

text \<open>The local variables of \<open>generateReport\<close> and the two maps of the report it fills.\<close>

record AggState =
  playerStats :: "(string \<times> PlayerStat) list"
  gameStats :: "(string \<times> GameStat) list"
  totalBets :: int
  totalWins :: int
  totalBetAmount :: int64
  totalWinAmount :: int64
  uniquePlayers :: "string set"
  uniqueGames :: "string set"
  uniqueBetIDs :: "string set"
  uniqueWinIDs :: "string set"
  timeStats :: "(int \<times> TimeStat) list"
  minTime :: real
  maxTime :: real
  playerBalances :: "string \<Rightarrow> int64 list"
  duplicateBets :: int
  duplicateWins :: int

section \<open>The aggregation loop\<close>

text \<open>Zero values of the structs: what reading a missing key of a Go map returns.\<close>

definition zeroPlayerStat :: PlayerStat where
  "zeroPlayerStat = \<lparr>PlayerStat.PlayerID = '''', PlayerStat.RTP = 0,
     PlayerStat.TotalBetAmount = 0, PlayerStat.TotalWinAmount = 0, PlayerStat.NetResult = 0,
     LastBalance = 0, PlayerStat.TotalBets = 0, PlayerStat.TotalWins = 0,
     TopBets = [], TopWins = []\<rparr>"

definition zeroGameStat :: GameStat where
  "zeroGameStat = \<lparr>GameStat.GameID = '''', GameStat.RTP = 0, GameStat.TotalBetAmount = 0,
     GameStat.TotalWinAmount = 0, GameStat.TotalBets = 0, GameStat.TotalWins = 0,
     Players = 0\<rparr>"

definition zeroTimeStat :: TimeStat where
  "zeroTimeStat = \<lparr>Hour = 0, TimeStat.TotalBets = 0, TimeStat.TotalWins = 0,
     TimeStat.TotalBetAmount = 0, TimeStat.TotalWinAmount = 0\<rparr>"

definition getPlayer :: "(string \<times> PlayerStat) list \<Rightarrow> string \<Rightarrow> PlayerStat" where
  "getPlayer m k = (case map_of m k of None \<Rightarrow> zeroPlayerStat | Some p \<Rightarrow> p)"

definition getGame :: "(string \<times> GameStat) list \<Rightarrow> string \<Rightarrow> GameStat" where
  "getGame m k = (case map_of m k of None \<Rightarrow> zeroGameStat | Some g \<Rightarrow> g)"

definition getTime :: "(int \<times> TimeStat) list \<Rightarrow> int \<Rightarrow> TimeStat" where
  "getTime m h = (case map_of m h of None \<Rightarrow> zeroTimeStat | Some t \<Rightarrow> t)"

text \<open>\<open>int64(x)\<close> on a \<open>float64\<close>: truncation towards zero.\<close>

definition truncate :: "real \<Rightarrow> int" where
  "truncate x = (if 0 \<le> x then \<lfloor>x\<rfloor> else \<lceil>x\<rceil>)"

definition hourOf :: "env \<Rightarrow> GameData \<Rightarrow> int" where
  "hourOf E d = localHour E (truncate (Timestamp d))"

definition initState :: AggState where
  "initState = \<lparr>playerStats = [], gameStats = [], totalBets = 0, totalWins = 0,
     totalBetAmount = 0, totalWinAmount = 0, uniquePlayers = {}, uniqueGames = {},
     uniqueBetIDs = {}, uniqueWinIDs = {}, timeStats = [], minTime = - 1, maxTime = 0,
     playerBalances = (\<lambda>_. []), duplicateBets = 0, duplicateWins = 0\<rparr>"

text \<open>
  Lines 272--293: what the loop body does with every entry before it looks at the message:
  the identifier sets, the time bounds, the balance history and the hour bucket.
\<close>

definition observe :: "env \<Rightarrow> GameData \<Rightarrow> AggState \<Rightarrow> AggState" where
  "observe E d s =
    (let s1 = s\<lparr>uniquePlayers := insert (PlayerID d) (uniquePlayers s),
                 uniqueGames := insert (GameID d) (uniqueGames s)\<rparr>;
         s2 = (if Timestamp d > maxTime s1 then s1\<lparr>maxTime := Timestamp d\<rparr> else s1);
         s3 = (if minTime s2 < 0 \<or> Timestamp d < minTime s2
               then s2\<lparr>minTime := Timestamp d\<rparr> else s2);
         s4 = s3\<lparr>playerBalances := (playerBalances s3)
                  (PlayerID d := playerBalances s3 (PlayerID d) @ [Balance d])\<rparr>;
         hour = hourOf E d
     in (if map_of (timeStats s4) hour = None
         then s4\<lparr>timeStats := AList.update hour (zeroTimeStat\<lparr>Hour := hour\<rparr>) (timeStats s4)\<rparr>
         else s4))"

text \<open>Lines 307--341: an accepted bet.\<close>

definition countBet :: "env \<Rightarrow> GameData \<Rightarrow> AggState \<Rightarrow> AggState" where
  "countBet E d s =
    (let pStat0 = getPlayer (playerStats s) (PlayerID d);
         topBet = \<lparr>TopBet.Amount = Bet d, TopBet.RoundID = RoundID d,
                   TopBet.Time = formatTime E (truncate (Timestamp d))\<rparr>;
         pStat = pStat0\<lparr>PlayerStat.PlayerID := PlayerID d,
                   PlayerStat.TotalBets := PlayerStat.TotalBets pStat0 + 1,
                   PlayerStat.TotalBetAmount := PlayerStat.TotalBetAmount pStat0 + Bet d,
                   LastBalance := Balance d,
                   TopBets := TopBets pStat0 @ [topBet]\<rparr>;
         gStat0 = getGame (gameStats s) (GameID d);
         gStat1 = gStat0\<lparr>GameStat.GameID := GameID d,
                   GameStat.TotalBets := GameStat.TotalBets gStat0 + 1,
                   GameStat.TotalBetAmount := GameStat.TotalBetAmount gStat0 + Bet d\<rparr>;
         gStat = (if map_of (gameStats s) (GameID d) = None then gStat1\<lparr>Players := 0\<rparr>
                  else gStat1);
         hour = hourOf E d;
         tStat0 = getTime (timeStats s) hour;
         tStat = tStat0\<lparr>TimeStat.TotalBets := TimeStat.TotalBets tStat0 + 1,
                   TimeStat.TotalBetAmount := TimeStat.TotalBetAmount tStat0 + Bet d\<rparr>
     in s\<lparr>totalBets := totalBets s + 1,
          totalBetAmount := totalBetAmount s + Bet d,
          playerStats := AList.update (PlayerID d) pStat (playerStats s),
          gameStats := AList.update (GameID d) gStat (gameStats s),
          timeStats := AList.update hour tStat (timeStats s)\<rparr>)"

text \<open>Lines 354--383: an accepted win.  Neither identifier field is assigned here.\<close>

definition countWin :: "env \<Rightarrow> GameData \<Rightarrow> AggState \<Rightarrow> AggState" where
  "countWin E d s =
    (let pStat0 = getPlayer (playerStats s) (PlayerID d);
         topWin = \<lparr>TopWin.Amount = Win d, TopWin.RoundID = RoundID d,
                   TopWin.Time = formatTime E (truncate (Timestamp d))\<rparr>;
         pStat = pStat0\<lparr>PlayerStat.TotalWins := PlayerStat.TotalWins pStat0 + 1,
                   PlayerStat.TotalWinAmount := PlayerStat.TotalWinAmount pStat0 + Win d,
                   LastBalance := Balance d,
                   TopWins := TopWins pStat0 @ [topWin]\<rparr>;
         gStat0 = getGame (gameStats s) (GameID d);
         gStat = gStat0\<lparr>GameStat.TotalWins := GameStat.TotalWins gStat0 + 1,
                   GameStat.TotalWinAmount := GameStat.TotalWinAmount gStat0 + Win d\<rparr>;
         hour = hourOf E d;
         tStat0 = getTime (timeStats s) hour;
         tStat = tStat0\<lparr>TimeStat.TotalWins := TimeStat.TotalWins tStat0 + 1,
                   TimeStat.TotalWinAmount := TimeStat.TotalWinAmount tStat0 + Win d\<rparr>
     in s\<lparr>totalWins := totalWins s + 1,
          totalWinAmount := totalWinAmount s + Win d,
          playerStats := AList.update (PlayerID d) pStat (playerStats s),
          gameStats := AList.update (GameID d) gStat (gameStats s),
          timeStats := AList.update hour tStat (timeStats s)\<rparr>)"

text \<open>
  One iteration of the loop of lines 271--385.  The two \<open>continue\<close> statements leave the
  iteration after the duplicate counter is incremented, with everything \<open>observe\<close> did
  already done.
\<close>

definition step :: "env \<Rightarrow> GameData \<Rightarrow> AggState \<Rightarrow> AggState" where
  "step E d s =
    (let s1 = observe E d s in
     if Message d = ''SendBet'' \<and> 0 <s Bet d then
       (if BetID d \<noteq> '''' then
          (if BetID d \<in> uniqueBetIDs s1 then s1\<lparr>duplicateBets := duplicateBets s1 + 1\<rparr>
           else countBet E d (s1\<lparr>uniqueBetIDs := insert (BetID d) (uniqueBetIDs s1)\<rparr>))
        else countBet E d s1)
     else if Message d = ''SendWin'' \<and> 0 <s Win d then
       (if WinID d \<noteq> '''' then
          (if WinID d \<in> uniqueWinIDs s1 then s1\<lparr>duplicateWins := duplicateWins s1 + 1\<rparr>
           else countWin E d (s1\<lparr>uniqueWinIDs := insert (WinID d) (uniqueWinIDs s1)\<rparr>))
        else countWin E d s1)
     else s1)"

fun loop :: "env \<Rightarrow> GameData list \<Rightarrow> AggState \<Rightarrow> AggState" where
  "loop E [] s = s"
| "loop E (d # ds) s = loop E ds (step E d s)"

definition aggregate :: "env \<Rightarrow> GameData list \<Rightarrow> AggState" where
  "aggregate E gameData = loop E gameData initState"

section \<open>Finalization\<close>

text \<open>
  \<open>sort.Slice(x, less)\<close>: the slice rearranged as the library decides.  The closure
  passed by the code compares the elements at two positions of the slice being sorted.
\<close>

definition sort_Slice :: "env \<Rightarrow> 'a list \<Rightarrow> ('a \<Rightarrow> 'a \<Rightarrow> bool) \<Rightarrow> 'a list" where
  "sort_Slice E xs lessFn =
     map (\<lambda>i. xs ! i) (slicePerm E (length xs) (\<lambda>i j. lessFn (xs ! i) (xs ! j)))"

text \<open>\<open>float64(w) / float64(b) * 100\<close> on two \<open>int64\<close> totals.\<close>

definition rtpPercent :: "env \<Rightarrow> int64 \<Rightarrow> int64 \<Rightarrow> real" where
  "rtpPercent E w b =
     f64 E (f64 E (f64 E (real_of_int (sint w)) / f64 E (real_of_int (sint b))) * 100)"

text \<open>Lines 389--408: the derived fields of one player record.\<close>

definition finalizePlayer :: "env \<Rightarrow> PlayerStat \<Rightarrow> PlayerStat" where
  "finalizePlayer E pStat0 =
    (let p1 = pStat0\<lparr>PlayerStat.NetResult :=
                 PlayerStat.TotalWinAmount pStat0 - PlayerStat.TotalBetAmount pStat0\<rparr>;
         p2 = (if 0 <s PlayerStat.TotalBetAmount p1
               then p1\<lparr>PlayerStat.RTP := rtpPercent E (PlayerStat.TotalWinAmount p1)
                                             (PlayerStat.TotalBetAmount p1)\<rparr>
               else p1);
         p3 = p2\<lparr>TopBets := sort_Slice E (TopBets p2)
                    (\<lambda>a b. TopBet.Amount b <s TopBet.Amount a)\<rparr>;
         p4 = (if length (TopBets p3) > 5 then p3\<lparr>TopBets := take 5 (TopBets p3)\<rparr> else p3);
         p5 = p4\<lparr>TopWins := sort_Slice E (TopWins p4)
                    (\<lambda>a b. TopWin.Amount b <s TopWin.Amount a)\<rparr>
     in (if length (TopWins p5) > 5 then p5\<lparr>TopWins := take 5 (TopWins p5)\<rparr> else p5))"

text \<open>Lines 413--420: the fraud screen on a finalized record, zero or one event.\<close>

definition suspicious :: "env \<Rightarrow> string \<Rightarrow> PlayerStat \<Rightarrow> SuspiciousEvent list" where
  "suspicious E playerID pStat =
    (if PlayerStat.TotalBets pStat > 100 \<and> PlayerStat.RTP pStat > 150
     then [\<lparr>Type = ''High RTP'', Description = ''Player has suspiciously high RTP'',
            SuspiciousEvent.PlayerID = playerID, SuspiciousEvent.Timestamp = '''',
            Details = sprintfDetails E (PlayerStat.RTP pStat) (PlayerStat.TotalBets pStat)\<rparr>]
     else [])"

text \<open>Lines 428--434: the players of one game, counted over all entries.\<close>

fun playersInGame :: "string \<Rightarrow> GameData list \<Rightarrow> string set \<Rightarrow> string set" where
  "playersInGame gameID [] acc = acc"
| "playersInGame gameID (d # ds) acc =
     playersInGame gameID ds (if GameID d = gameID then insert (PlayerID d) acc else acc)"

definition finalizeGame :: "env \<Rightarrow> GameData list \<Rightarrow> string \<Rightarrow> GameStat \<Rightarrow> GameStat" where
  "finalizeGame E gameData gameID gStat0 =
    (let g1 = (if 0 <s GameStat.TotalBetAmount gStat0
               then gStat0\<lparr>GameStat.RTP := rtpPercent E (GameStat.TotalWinAmount gStat0)
                                               (GameStat.TotalBetAmount gStat0)\<rparr>
               else gStat0)
     in g1\<lparr>Players := int (card (playersInGame gameID gameData {}))\<rparr>)"

text \<open>Lines 447--466: the summary.\<close>

definition makeSummary :: "env \<Rightarrow> AggState \<Rightarrow> Summary" where
  "makeSummary E s =
    (let s0 = \<lparr>Summary.TotalBets = totalBets s, Summary.TotalWins = totalWins s,
               Summary.TotalBetAmount = totalBetAmount s,
               Summary.TotalWinAmount = totalWinAmount s,
               Summary.NetResult = totalWinAmount s - totalBetAmount s,
               Summary.RTP = 0,
               UniquePlayers = int (card (uniquePlayers s)),
               UniqueGames = int (card (uniqueGames s)),
               TimeSpan = ''''\<rparr>;
         s1 = (if 0 <s totalBetAmount s
               then s0\<lparr>Summary.RTP := rtpPercent E (totalWinAmount s) (totalBetAmount s)\<rparr>
               else s0)
     in (if minTime s \<ge> 0 \<and> maxTime s > minTime s
         then s1\<lparr>TimeSpan := formatTime E (truncate (minTime s)) @ '' - '' @
                               formatTime E (truncate (maxTime s))\<rparr>
         else s1))"

text \<open>
  The report from the final loop state.  Go ranges over a map in an unspecified order; each
  iteration of the two finalization loops reads and writes only its own key, so the maps do
  not depend on that order, and the suspicious events are listed here in the order of the
  association list.
\<close>

definition finalize :: "env \<Rightarrow> GameData list \<Rightarrow> AggState \<Rightarrow> Report" where
  "finalize E gameData s =
    \<lparr>Summary = makeSummary E s,
     PlayerStats = map (\<lambda>(k, p). (k, finalizePlayer E p)) (playerStats s),
     GameStats = map (\<lambda>(k, g). (k, finalizeGame E gameData k g)) (gameStats s),
     TimeStats = sort_Slice E (map snd (timeStats s)) (\<lambda>a b. Hour a < Hour b),
     SuspiciousEvents =
       concat (map (\<lambda>(k, p). suspicious E k (finalizePlayer E p)) (playerStats s))\<rparr>"

definition generateReport :: "env \<Rightarrow> GameData list \<Rightarrow> Report" where
  "generateReport E gameData = finalize E gameData (aggregate E gameData)"

section \<open>Vocabulary of the properties\<close>

text \<open>The guards of the two branches of the loop body (lines 296 and 343).\<close>

definition isBet :: "GameData \<Rightarrow> bool" where
  "isBet d \<longleftrightarrow> Message d = ''SendBet'' \<and> 0 <s Bet d"

definition isWin :: "GameData \<Rightarrow> bool" where
  "isWin d \<longleftrightarrow> Message d = ''SendWin'' \<and> 0 <s Win d"

text \<open>
  The verdict of the identifier check in a given state: an entry is a duplicate when it
  passes the guard of its branch and its non-empty identifier is already in the set of its
  kind; it is accepted when it passes the guard and is not a duplicate.
\<close>

definition dupBet :: "AggState \<Rightarrow> GameData \<Rightarrow> bool" where
  "dupBet s d \<longleftrightarrow> isBet d \<and> BetID d \<noteq> '''' \<and> BetID d \<in> uniqueBetIDs s"

definition dupWin :: "AggState \<Rightarrow> GameData \<Rightarrow> bool" where
  "dupWin s d \<longleftrightarrow> isWin d \<and> WinID d \<noteq> '''' \<and> WinID d \<in> uniqueWinIDs s"

definition freshBet :: "AggState \<Rightarrow> GameData \<Rightarrow> bool" where
  "freshBet s d \<longleftrightarrow> isBet d \<and> (BetID d = '''' \<or> BetID d \<notin> uniqueBetIDs s)"

definition freshWin :: "AggState \<Rightarrow> GameData \<Rightarrow> bool" where
  "freshWin s d \<longleftrightarrow> isWin d \<and> (WinID d = '''' \<or> WinID d \<notin> uniqueWinIDs s)"

text \<open>
  The accepted entries of a stream, in stream order, as the identifier ledger of the
  specification decides them: \<open>bs\<close> and \<open>ws\<close> are the bet and win identifiers seen so far;
  an entry with an empty identifier bypasses the ledger.
\<close>

fun counted :: "string set \<Rightarrow> string set \<Rightarrow> GameData list \<Rightarrow> GameData list" where
  "counted bs ws [] = []"
| "counted bs ws (d # ds) =
    (if isBet d then
       (if BetID d = '''' then d # counted bs ws ds
        else if BetID d \<in> bs then counted bs ws ds
        else d # counted (insert (BetID d) bs) ws ds)
     else if isWin d then
       (if WinID d = '''' then d # counted bs ws ds
        else if WinID d \<in> ws then counted bs ws ds
        else d # counted bs (insert (WinID d) ws) ds)
     else counted bs ws ds)"

definition acceptedBets :: "GameData list \<Rightarrow> GameData list" where
  "acceptedBets gameData = filter isBet (counted {} {} gameData)"

definition acceptedWins :: "GameData list \<Rightarrow> GameData list" where
  "acceptedWins gameData = filter isWin (counted {} {} gameData)"

text \<open>The four figures of an hour bucket; a bucket that does not exist counts nothing.\<close>

definition hourFigures :: "(int \<times> TimeStat) list \<Rightarrow> int \<Rightarrow> int \<times> int \<times> int64 \<times> int64" where
  "hourFigures m h = (let t = getTime m h in
     (TimeStat.TotalBets t, TimeStat.TotalWins t,
      TimeStat.TotalBetAmount t, TimeStat.TotalWinAmount t))"

text \<open>The candidate entries the two branches append (lines 318--322 and 364--368).\<close>

definition topBetOf :: "env \<Rightarrow> GameData \<Rightarrow> TopBet" where
  "topBetOf E d = \<lparr>TopBet.Amount = Bet d, TopBet.RoundID = RoundID d,
     TopBet.Time = formatTime E (truncate (Timestamp d))\<rparr>"

definition topWinOf :: "env \<Rightarrow> GameData \<Rightarrow> TopWin" where
  "topWinOf E d = \<lparr>TopWin.Amount = Win d, TopWin.RoundID = RoundID d,
     TopWin.Time = formatTime E (truncate (Timestamp d))\<rparr>"

text \<open>What an accepted bet and an accepted win do to the record of their player.\<close>

definition playerBet :: "env \<Rightarrow> GameData \<Rightarrow> PlayerStat \<Rightarrow> PlayerStat" where
  "playerBet E d p = p\<lparr>PlayerStat.PlayerID := PlayerID d,
     PlayerStat.TotalBets := PlayerStat.TotalBets p + 1,
     PlayerStat.TotalBetAmount := PlayerStat.TotalBetAmount p + Bet d,
     LastBalance := Balance d,
     TopBets := TopBets p @ [topBetOf E d]\<rparr>"

definition playerWin :: "env \<Rightarrow> GameData \<Rightarrow> PlayerStat \<Rightarrow> PlayerStat" where
  "playerWin E d p = p\<lparr>PlayerStat.TotalWins := PlayerStat.TotalWins p + 1,
     PlayerStat.TotalWinAmount := PlayerStat.TotalWinAmount p + Win d,
     LastBalance := Balance d,
     TopWins := TopWins p @ [topWinOf E d]\<rparr>"

text \<open>And to the record of their game; a record that is created starts with no players.\<close>

definition gameBet :: "GameData \<Rightarrow> GameStat \<Rightarrow> GameStat" where
  "gameBet d g = g\<lparr>GameStat.GameID := GameID d,
     GameStat.TotalBets := GameStat.TotalBets g + 1,
     GameStat.TotalBetAmount := GameStat.TotalBetAmount g + Bet d\<rparr>"

definition gameWin :: "GameData \<Rightarrow> GameStat \<Rightarrow> GameStat" where
  "gameWin d g = g\<lparr>GameStat.TotalWins := GameStat.TotalWins g + 1,
     GameStat.TotalWinAmount := GameStat.TotalWinAmount g + Win d\<rparr>"

text \<open>
  The entries folded into the record of a player, and of a game: the accepted bets and wins
  that carry the identifier, in stream order.  These are the entries in whose iteration
  the loop writes the record.
\<close>

definition playerEvents :: "string \<Rightarrow> GameData list \<Rightarrow> GameData list" where
  "playerEvents k gameData = filter (\<lambda>d. PlayerID d = k) (counted {} {} gameData)"

definition gameEvents :: "string \<Rightarrow> GameData list \<Rightarrow> GameData list" where
  "gameEvents k gameData = filter (\<lambda>d. GameID d = k) (counted {} {} gameData)"

definition playerApply :: "env \<Rightarrow> GameData \<Rightarrow> PlayerStat \<Rightarrow> PlayerStat" where
  "playerApply E d p = (if isBet d then playerBet E d p else playerWin E d p)"

definition gameApply :: "GameData \<Rightarrow> GameStat \<Rightarrow> GameStat" where
  "gameApply d g = (if isBet d then gameBet d g else gameWin d g)"

text \<open>
  Following the words of the specification: the players who transacted on a game are those
  with an entry of kind bet or win on it.
\<close>

definition transactingPlayers :: "string \<Rightarrow> GameData list \<Rightarrow> string set" where
  "transactingPlayers gameID gameData =
     PlayerID ` {d \<in> set gameData. GameID d = gameID \<and>
                   (Message d = ''SendBet'' \<or> Message d = ''SendWin'')}"

text \<open>
  The documented contract of \<open>sort.Slice\<close> for a comparator that orders by a key: the
  result is a rearrangement of the slice in which the keys do not decrease.  The library
  states that the sort is not stable, so nothing is said about entries with equal keys.
\<close>

definition sortSliceContract :: "env \<Rightarrow> bool" where
  "sortSliceContract E \<longleftrightarrow>
     (\<forall>n (key :: nat \<Rightarrow> int).
        mset (slicePerm E n (\<lambda>i j. key i < key j)) = mset [0..<n] \<and>
        sorted (map key (slicePerm E n (\<lambda>i j. key i < key j))))"

section \<open>The library's \<open>sort.Slice\<close>\<close>

text \<open>
  \<open>sort.Slice\<close> is not part of \<open>main.go\<close>; what follows is the routine of the Go library
  behind it, the pattern-defeating quicksort \<open>pdqsort_func\<close> of the package \<open>sort\<close> with
  its helpers, function by function.  The slice being sorted is the list \<open>p\<close> of the
  original indices in their current order: \<open>data.Less(i, j)\<close> compares the entries now at
  the positions \<open>i\<close> and \<open>j\<close>, \<open>data.Swap(i, j)\<close> exchanges them.  Positions are natural
  numbers; the library never moves one below the start of its range.
\<close>

definition data_Less :: "(nat \<Rightarrow> nat \<Rightarrow> bool) \<Rightarrow> nat list \<Rightarrow> nat \<Rightarrow> nat \<Rightarrow> bool" where
  "data_Less lessFn p i j = lessFn (p ! i) (p ! j)"

definition data_Swap :: "nat list \<Rightarrow> nat \<Rightarrow> nat \<Rightarrow> nat list" where
  "data_Swap p i j = p[i := p ! j, j := p ! i]"

text \<open>\<open>insertionSort_func\<close>: the entry at \<open>i\<close> moves left while it is less than its neighbour.\<close>

function insertionSort_inner ::
  "(nat \<Rightarrow> nat \<Rightarrow> bool) \<Rightarrow> nat \<Rightarrow> nat \<Rightarrow> nat list \<Rightarrow> nat list" where
  "insertionSort_inner lessFn a j p =
     (if a < j \<and> data_Less lessFn p j (j - 1)
      then insertionSort_inner lessFn a (j - 1) (data_Swap p j (j - 1)) else p)"
  by pat_completeness auto
termination by (relation "measure (\<lambda>(lessFn, a, j, p). j)") auto

declare insertionSort_inner.simps [simp del]

definition insertionSort_func ::
  "(nat \<Rightarrow> nat \<Rightarrow> bool) \<Rightarrow> nat list \<Rightarrow> nat \<Rightarrow> nat \<Rightarrow> nat list" where
  "insertionSort_func lessFn p a b =
     fold (\<lambda>i q. insertionSort_inner lessFn a i q) [a + 1..<b] p"

text \<open>\<open>siftDown_func\<close> and \<open>heapSort_func\<close>, the fallback after too many bad pivots.\<close>

function siftDown_func ::
  "(nat \<Rightarrow> nat \<Rightarrow> bool) \<Rightarrow> nat list \<Rightarrow> nat \<Rightarrow> nat \<Rightarrow> nat \<Rightarrow> nat list" where
  "siftDown_func lessFn p node hi first =
     (let child = 2 * node + 1 in
      if hi \<le> child then p
      else
        let child = (if child + 1 < hi \<and> data_Less lessFn p (first + child) (first + child + 1)
                     then child + 1 else child)
        in if \<not> data_Less lessFn p (first + node) (first + child) then p
           else siftDown_func lessFn (data_Swap p (first + node) (first + child)) child hi first)"
  by pat_completeness auto
termination by (relation "measure (\<lambda>(lessFn, p, node, hi, first). hi - node)") auto

declare siftDown_func.simps [simp del]

definition heapSort_func ::
  "(nat \<Rightarrow> nat \<Rightarrow> bool) \<Rightarrow> nat list \<Rightarrow> nat \<Rightarrow> nat \<Rightarrow> nat list" where
  "heapSort_func lessFn p a b =
     (let first = a; lo = 0; hi = b - a;
          p = fold (\<lambda>i q. siftDown_func lessFn q i hi first) (rev [0..<(hi - 1) div 2 + 1]) p
      in fold (\<lambda>i q. siftDown_func lessFn (data_Swap q first (first + i)) lo i first)
           (rev [0..<hi]) p)"

text \<open>
  \<open>choosePivot_func\<close>: the median of the entries at one, two and three quarters of the
  range (of three medians of adjacent entries from 50 entries on), and a hint from the
  number of exchanges the medians needed.
\<close>

datatype sortedHint = unknownHint | increasingHint | decreasingHint

definition order2_func ::
  "(nat \<Rightarrow> nat \<Rightarrow> bool) \<Rightarrow> nat list \<Rightarrow> nat \<Rightarrow> nat \<Rightarrow> nat \<Rightarrow> nat \<times> nat \<times> nat" where
  "order2_func lessFn p a b swaps =
     (if data_Less lessFn p b a then (b, a, swaps + 1) else (a, b, swaps))"

definition median_func ::
  "(nat \<Rightarrow> nat \<Rightarrow> bool) \<Rightarrow> nat list \<Rightarrow> nat \<Rightarrow> nat \<Rightarrow> nat \<Rightarrow> nat \<Rightarrow> nat \<times> nat" where
  "median_func lessFn p a b c swaps =
     (let (a, b, swaps) = order2_func lessFn p a b swaps;
          (b, c, swaps) = order2_func lessFn p b c swaps;
          (a, b, swaps) = order2_func lessFn p a b swaps
      in (b, swaps))"

definition medianAdjacent_func ::
  "(nat \<Rightarrow> nat \<Rightarrow> bool) \<Rightarrow> nat list \<Rightarrow> nat \<Rightarrow> nat \<Rightarrow> nat \<times> nat" where
  "medianAdjacent_func lessFn p a swaps = median_func lessFn p (a - 1) a (a + 1) swaps"

definition choosePivot_func ::
  "(nat \<Rightarrow> nat \<Rightarrow> bool) \<Rightarrow> nat list \<Rightarrow> nat \<Rightarrow> nat \<Rightarrow> nat \<times> sortedHint" where
  "choosePivot_func lessFn p a b =
     (let l = b - a;
          i = a + l div 4 * 1;
          j = a + l div 4 * 2;
          k = a + l div 4 * 3;
          (j, swaps) =
            (if 8 \<le> l then
               (let (i, j, k, swaps) =
                  (if 50 \<le> l then
                     (let (i, swaps) = medianAdjacent_func lessFn p i 0;
                          (j, swaps) = medianAdjacent_func lessFn p j swaps;
                          (k, swaps) = medianAdjacent_func lessFn p k swaps
                      in (i, j, k, swaps))
                   else (i, j, k, 0))
                in median_func lessFn p i j k swaps)
             else (j, 0))
      in if swaps = 0 then (j, increasingHint)
         else if swaps = 4 * 3 then (j, decreasingHint)
         else (j, unknownHint))"

text \<open>\<open>reverseRange_func\<close>.\<close>

function reverseRange_loop :: "nat list \<Rightarrow> nat \<Rightarrow> nat \<Rightarrow> nat list" where
  "reverseRange_loop p i j =
     (if i < j then reverseRange_loop (data_Swap p i j) (i + 1) (j - 1) else p)"
  by pat_completeness auto
termination by (relation "measure (\<lambda>(p, i, j). j - i)") auto

declare reverseRange_loop.simps [simp del]

definition reverseRange_func :: "nat list \<Rightarrow> nat \<Rightarrow> nat \<Rightarrow> nat list" where
  "reverseRange_func p a b = reverseRange_loop p a (b - 1)"

text \<open>
  \<open>partialInsertionSort_func\<close>: up to five passes; each skips the entries already in
  order, reports success at the end of the range, gives up on a range of fewer than 50
  entries, and otherwise shifts the offending pair into place.
\<close>

function skipOrdered :: "(nat \<Rightarrow> nat \<Rightarrow> bool) \<Rightarrow> nat list \<Rightarrow> nat \<Rightarrow> nat \<Rightarrow> nat" where
  "skipOrdered lessFn p b i =
     (if i < b \<and> \<not> data_Less lessFn p i (i - 1) then skipOrdered lessFn p b (i + 1) else i)"
  by pat_completeness auto
termination by (relation "measure (\<lambda>(lessFn, p, b, i). b - i)") auto

declare skipOrdered.simps [simp del]

function shiftLeft :: "(nat \<Rightarrow> nat \<Rightarrow> bool) \<Rightarrow> nat \<Rightarrow> nat list \<Rightarrow> nat list" where
  "shiftLeft lessFn j p =
     (if 1 \<le> j \<and> data_Less lessFn p j (j - 1)
      then shiftLeft lessFn (j - 1) (data_Swap p j (j - 1)) else p)"
  by pat_completeness auto
termination by (relation "measure (\<lambda>(lessFn, j, p). j)") auto

declare shiftLeft.simps [simp del]

function shiftRight :: "(nat \<Rightarrow> nat \<Rightarrow> bool) \<Rightarrow> nat \<Rightarrow> nat \<Rightarrow> nat list \<Rightarrow> nat list" where
  "shiftRight lessFn b j p =
     (if j < b \<and> data_Less lessFn p j (j - 1)
      then shiftRight lessFn b (j + 1) (data_Swap p j (j - 1)) else p)"
  by pat_completeness auto
termination by (relation "measure (\<lambda>(lessFn, b, j, p). b - j)") auto

declare shiftRight.simps [simp del]

fun partialInsertionSort_loop ::
  "(nat \<Rightarrow> nat \<Rightarrow> bool) \<Rightarrow> nat \<Rightarrow> nat \<Rightarrow> nat \<Rightarrow> nat \<Rightarrow> nat list \<Rightarrow> nat list \<times> bool" where
  "partialInsertionSort_loop lessFn a b 0 i p = (p, False)"
| "partialInsertionSort_loop lessFn a b (Suc steps) i p =
     (let i = skipOrdered lessFn p b i in
      if i = b then (p, True)
      else if b - a < 50 then (p, False)
      else
        let p = data_Swap p i (i - 1);
            p = (if 2 \<le> i - a then shiftLeft lessFn (i - 1) p else p);
            p = (if 2 \<le> b - i then shiftRight lessFn b (i + 1) p else p)
        in partialInsertionSort_loop lessFn a b steps i p)"

definition partialInsertionSort_func ::
  "(nat \<Rightarrow> nat \<Rightarrow> bool) \<Rightarrow> nat list \<Rightarrow> nat \<Rightarrow> nat \<Rightarrow> nat list \<times> bool" where
  "partialInsertionSort_func lessFn p a b = partialInsertionSort_loop lessFn a b 5 (a + 1) p"



text \<open>
  \<open>partition_func\<close>: the pivot goes to the front; \<open>i\<close> moves right across the entries less
  than the pivot and \<open>j\<close> moves left across the others, exchanging the two entries at
  which they stop, until they cross; the pivot then goes to \<open>j\<close>.  Since \<open>i\<close> starts
  right of the pivot, \<open>j\<close> stops at the pivot's position at the latest.
\<close>

function skipLess :: "(nat \<Rightarrow> nat \<Rightarrow> bool) \<Rightarrow> nat list \<Rightarrow> nat \<Rightarrow> nat \<Rightarrow> nat \<Rightarrow> nat" where
  "skipLess lessFn p a i j =
     (if i \<le> j \<and> data_Less lessFn p i a then skipLess lessFn p a (i + 1) j else i)"
  by pat_completeness auto
termination by (relation "measure (\<lambda>(lessFn, p, a, i, j). j + 1 - i)") auto

declare skipLess.simps [simp del]

fun skipNotLess :: "(nat \<Rightarrow> nat \<Rightarrow> bool) \<Rightarrow> nat list \<Rightarrow> nat \<Rightarrow> nat \<Rightarrow> nat \<Rightarrow> nat" where
  "skipNotLess lessFn p a i 0 = 0"
| "skipNotLess lessFn p a i (Suc j) =
     (if i \<le> Suc j \<and> \<not> data_Less lessFn p (Suc j) a then skipNotLess lessFn p a i j
      else Suc j)"

function partition_loop ::
  "(nat \<Rightarrow> nat \<Rightarrow> bool) \<Rightarrow> nat list \<Rightarrow> nat \<Rightarrow> nat \<Rightarrow> nat \<Rightarrow> nat list \<times> nat" where
  "partition_loop lessFn p a i j =
     (let i' = skipLess lessFn p a i j;
          j' = skipNotLess lessFn p a i' j
      in if j' < i' then (p, j')
         else partition_loop lessFn (data_Swap p i' j') a (i' + 1) (j' - 1))"
  by pat_completeness auto
termination
proof (relation "measure (\<lambda>(lessFn, p, a, i, j). j + 1 - i)")
  show "wf (measure (\<lambda>(lessFn, p, a, i, j). j + 1 - i))"
    by simp
next
  fix lessFn :: "nat \<Rightarrow> nat \<Rightarrow> bool" and p :: "nat list" and a i j i' j' :: nat
  assume i': "i' = skipLess lessFn p a i j" and j': "j' = skipNotLess lessFn p a i' j"
    and go: "\<not> j' < i'"
  have up: "i \<le> skipLess lessFn p a i j"
    by (induction lessFn p a i j rule: skipLess.induct)
       (subst skipLess.simps, auto)
  have down: "skipNotLess lessFn p a k j \<le> j" for k
    by (induction j) auto
  from up down [of i'] i' j' go
  show "((lessFn, data_Swap p i' j', a, i' + 1, j' - 1), (lessFn, p, a, i, j))
          \<in> measure (\<lambda>(lessFn, p, a, i, j). j + 1 - i)"
    by auto
qed

declare partition_loop.simps [simp del]

definition partition_func ::
  "(nat \<Rightarrow> nat \<Rightarrow> bool) \<Rightarrow> nat list \<Rightarrow> nat \<Rightarrow> nat \<Rightarrow> nat \<Rightarrow> nat list \<times> nat \<times> bool" where
  "partition_func lessFn p a b pivot =
     (let p = data_Swap p a pivot;
          i = skipLess lessFn p a (a + 1) (b - 1);
          j = skipNotLess lessFn p a i (b - 1)
      in if j < i then (data_Swap p j a, j, True)
         else
           let (p, j) = partition_loop lessFn (data_Swap p i j) a (i + 1) (j - 1)
           in (data_Swap p j a, j, False))"

text \<open>\<open>partitionEqual_func\<close>: the entries equal to the pivot to the left, the greater ones to the right.\<close>

function skipNotGreater :: "(nat \<Rightarrow> nat \<Rightarrow> bool) \<Rightarrow> nat list \<Rightarrow> nat \<Rightarrow> nat \<Rightarrow> nat \<Rightarrow> nat" where
  "skipNotGreater lessFn p a i j =
     (if i \<le> j \<and> \<not> data_Less lessFn p a i then skipNotGreater lessFn p a (i + 1) j else i)"
  by pat_completeness auto
termination by (relation "measure (\<lambda>(lessFn, p, a, i, j). j + 1 - i)") auto

declare skipNotGreater.simps [simp del]

fun skipGreater :: "(nat \<Rightarrow> nat \<Rightarrow> bool) \<Rightarrow> nat list \<Rightarrow> nat \<Rightarrow> nat \<Rightarrow> nat \<Rightarrow> nat" where
  "skipGreater lessFn p a i 0 = 0"
| "skipGreater lessFn p a i (Suc j) =
     (if i \<le> Suc j \<and> data_Less lessFn p a (Suc j) then skipGreater lessFn p a i j else Suc j)"

function partitionEqual_loop ::
  "(nat \<Rightarrow> nat \<Rightarrow> bool) \<Rightarrow> nat list \<Rightarrow> nat \<Rightarrow> nat \<Rightarrow> nat \<Rightarrow> nat list \<times> nat" where
  "partitionEqual_loop lessFn p a i j =
     (let i' = skipNotGreater lessFn p a i j;
          j' = skipGreater lessFn p a i' j
      in if j' < i' then (p, i')
         else partitionEqual_loop lessFn (data_Swap p i' j') a (i' + 1) (j' - 1))"
  by pat_completeness auto
termination
proof (relation "measure (\<lambda>(lessFn, p, a, i, j). j + 1 - i)")
  show "wf (measure (\<lambda>(lessFn, p, a, i, j). j + 1 - i))"
    by simp
next
  fix lessFn :: "nat \<Rightarrow> nat \<Rightarrow> bool" and p :: "nat list" and a i j i' j' :: nat
  assume i': "i' = skipNotGreater lessFn p a i j" and j': "j' = skipGreater lessFn p a i' j"
    and go: "\<not> j' < i'"
  have up: "i \<le> skipNotGreater lessFn p a i j"
    by (induction lessFn p a i j rule: skipNotGreater.induct)
       (subst skipNotGreater.simps, auto)
  have down: "skipGreater lessFn p a k j \<le> j" for k
    by (induction j) auto
  from up down [of i'] i' j' go
  show "((lessFn, data_Swap p i' j', a, i' + 1, j' - 1), (lessFn, p, a, i, j))
          \<in> measure (\<lambda>(lessFn, p, a, i, j). j + 1 - i)"
    by auto
qed

declare partitionEqual_loop.simps [simp del]

definition partitionEqual_func ::
  "(nat \<Rightarrow> nat \<Rightarrow> bool) \<Rightarrow> nat list \<Rightarrow> nat \<Rightarrow> nat \<Rightarrow> nat \<Rightarrow> nat list \<times> nat" where
  "partitionEqual_func lessFn p a b pivot =
     partitionEqual_loop lessFn (data_Swap p a pivot) a (a + 1) (b - 1)"

unbundle bit_operations_syntax

text \<open>
  \<open>breakPatterns_func\<close>: three entries around the middle are exchanged with entries at
  positions drawn from the library's \<open>xorshift\<close> generator, seeded with the length.
\<close>

definition xorshift_Next :: "64 word \<Rightarrow> 64 word" where
  "xorshift_Next r =
     (let r = r XOR push_bit 13 r;
          r = r XOR drop_bit 7 r;
          r = r XOR push_bit 17 r
      in r)"

fun bits_Len :: "nat \<Rightarrow> nat" where
  "bits_Len n = (if n = 0 then 0 else Suc (bits_Len (n div 2)))"

declare bits_Len.simps [simp del]

definition nextPowerOfTwo :: "nat \<Rightarrow> nat" where
  "nextPowerOfTwo len = 2 ^ bits_Len len"

definition breakPatterns_func :: "nat list \<Rightarrow> nat \<Rightarrow> nat \<Rightarrow> nat list" where
  "breakPatterns_func p a b =
     (let len = b - a in
      if 8 \<le> len then
        (let modulus = nextPowerOfTwo len;
             idx = a + (len div 4) * 2 - 1
         in fst (fold (\<lambda>i (q, random).
                   let random = xorshift_Next random;
                       other = unat random mod modulus;
                       other = (if len \<le> other then other - len else other)
                   in (data_Swap q (idx - 1 + i) (a + other), random))
                 [0..<3] (p, word_of_nat len)))
      else p)"

text \<open>
  \<open>pdqsort_func\<close>.  The loop of the library is the recursion on the remaining range, with
  the two flags it carries from one round to the next; the library's own recursive call
  sorts the shorter side first.  The first argument bounds the number of nested rounds;
  \<open>None\<close> means that it was too small.
\<close>

fun pdqsort_func ::
  "nat \<Rightarrow> (nat \<Rightarrow> nat \<Rightarrow> bool) \<Rightarrow> nat list \<Rightarrow> nat \<Rightarrow> nat \<Rightarrow> nat \<Rightarrow> bool \<Rightarrow> bool \<Rightarrow> nat list option" where
  "pdqsort_func 0 lessFn p a b limit wasBalanced wasPartitioned = None"
| "pdqsort_func (Suc fuel) lessFn p a b limit wasBalanced wasPartitioned =
     (let len = b - a in
      if len \<le> 12 then Some (insertionSort_func lessFn p a b)
      else if limit = 0 then Some (heapSort_func lessFn p a b)
      else
        let (p, limit) = (if \<not> wasBalanced then (breakPatterns_func p a b, limit - 1)
                          else (p, limit));
            (pivot, hint) = choosePivot_func lessFn p a b;
            (p, pivot, hint) =
              (if hint = decreasingHint
               then (reverseRange_func p a b, (b - 1) - (pivot - a), increasingHint)
               else (p, pivot, hint));
            (p, finished) =
              (if wasBalanced \<and> wasPartitioned \<and> hint = increasingHint
               then partialInsertionSort_func lessFn p a b else (p, False))
        in if finished then Some p
           else if 0 < a \<and> \<not> data_Less lessFn p (a - 1) pivot then
             (let (p, mid) = partitionEqual_func lessFn p a b pivot
              in pdqsort_func fuel lessFn p mid b limit wasBalanced wasPartitioned)
           else
             (let (p, mid, alreadyPartitioned) = partition_func lessFn p a b pivot;
                  leftLen = mid - a;
                  rightLen = b - mid;
                  balanceThreshold = len div 8
              in if leftLen < rightLen then
                   (case pdqsort_func fuel lessFn p a mid limit True True of
                      None \<Rightarrow> None
                    | Some p \<Rightarrow>
                        pdqsort_func fuel lessFn p (mid + 1) b limit
                          (balanceThreshold \<le> leftLen) alreadyPartitioned)
                 else
                   (case pdqsort_func fuel lessFn p (mid + 1) b limit True True of
                      None \<Rightarrow> None
                    | Some p \<Rightarrow>
                        pdqsort_func fuel lessFn p a mid limit
                          (balanceThreshold \<le> rightLen) alreadyPartitioned)))"

text \<open>
  \<open>sort.Slice\<close>: the limit is \<open>bits.Len(uint(length))\<close>.  A range of \<open>n\<close> entries needs
  fewer than \<open>n + 1\<close> nested rounds, so the sort returns (lemma \<open>Slice_returns\<close>).
\<close>

definition Slice :: "nat \<Rightarrow> (nat \<Rightarrow> nat \<Rightarrow> bool) \<Rightarrow> nat list" where
  "Slice n lessFn = the (pdqsort_func (Suc n) lessFn [0..<n] 0 n (bits_Len n) True True)"

section \<open>Environments and the streams of the examples\<close>

text \<open>
  Insertion sort on the indices, which is what the library does on a slice of at most 12
  entries (lemma \<open>Slice_short\<close>): the entry at \<open>i\<close> moves left across every neighbour it
  is less than.  The sorted prefix is kept reversed, its last entry first.
\<close>

fun sinkLeft :: "(nat \<Rightarrow> nat \<Rightarrow> bool) \<Rightarrow> nat \<Rightarrow> nat list \<Rightarrow> nat list" where
  "sinkLeft lessFn x [] = [x]"
| "sinkLeft lessFn x (p # ps) =
     (if lessFn x p then p # sinkLeft lessFn x ps else x # p # ps)"

definition insertionSort :: "nat \<Rightarrow> (nat \<Rightarrow> nat \<Rightarrow> bool) \<Rightarrow> nat list" where
  "insertionSort n lessFn = rev (foldl (\<lambda>acc i. sinkLeft lessFn i acc) [] [0..<n])"

text \<open>
  An environment for the examples: the clock reads UTC, every value needed is
  representable, so \<open>f64\<close> rounds nothing, and slices are sorted by insertion.  The two
  renderings are placeholders; no statement below depends on them.
\<close>

definition exampleEnv :: env where
  "exampleEnv = \<lparr>localHour = (\<lambda>sec. (sec div 3600) mod 24),
     formatTime = (\<lambda>sec. ''<time>''),
     f64 = (\<lambda>x. x),
     slicePerm = insertionSort,
     sprintfDetails = (\<lambda>r n. ''<details>'')\<rparr>"

text \<open>The same environment with the library's \<open>sort.Slice\<close>.\<close>

definition goEnv :: env where
  "goEnv = exampleEnv\<lparr>slicePerm := Slice\<rparr>"

text \<open>Entries of the three kinds, with the fields the examples vary.\<close>

definition betEvent ::
  "string \<Rightarrow> string \<Rightarrow> string \<Rightarrow> int64 \<Rightarrow> string \<Rightarrow> int64 \<Rightarrow> real \<Rightarrow> GameData" where
  "betEvent player game rnd amount ident balance ts =
     \<lparr>Message = ''SendBet'', GameID = game, GameData.PlayerID = player,
      GameData.RoundID = rnd, GameData.Timestamp = ts, BetID = ident, WinID = '''',
      Bet = amount, Win = 0, Balance = balance\<rparr>"

definition winEvent ::
  "string \<Rightarrow> string \<Rightarrow> string \<Rightarrow> int64 \<Rightarrow> string \<Rightarrow> int64 \<Rightarrow> real \<Rightarrow> GameData" where
  "winEvent player game rnd amount ident balance ts =
     \<lparr>Message = ''SendWin'', GameID = game, GameData.PlayerID = player,
      GameData.RoundID = rnd, GameData.Timestamp = ts, BetID = '''', WinID = ident,
      Bet = 0, Win = amount, Balance = balance\<rparr>"

definition otherEvent :: "string \<Rightarrow> string \<Rightarrow> int64 \<Rightarrow> real \<Rightarrow> GameData" where
  "otherEvent player game balance ts =
     \<lparr>Message = ''OpenGame'', GameID = game, GameData.PlayerID = player,
      GameData.RoundID = '''', GameData.Timestamp = ts, BetID = '''', WinID = '''',
      Bet = 0, Win = 0, Balance = balance\<rparr>"

definition scenarioStream :: "GameData list" where
  "scenarioStream =
     [betEvent ''A'' ''g1'' ''r1'' 100 ''b1'' 900 1000,
      betEvent ''A'' ''g1'' ''r1'' 100 ''b1'' 900 1001,
      winEvent ''A'' ''g1'' ''r1'' 50 ''w1'' 950 1002]"

text \<open>A bet and a second bet that carries the identifier of the first.\<close>

definition firstBet :: GameData where
  "firstBet = betEvent ''A'' ''g1'' ''r1'' 100 ''b1'' 900 1000"

definition replayedBet :: GameData where
  "replayedBet = betEvent ''B'' ''g2'' ''r2'' 100 ''b1'' 400 5000"

text \<open>A bet followed by a win with an earlier timestamp, and a stream of a single win.\<close>

definition outOfOrderStream :: "GameData list" where
  "outOfOrderStream =
     [betEvent ''A'' ''g1'' ''r1'' 100 ''b1'' 900 2000,
      winEvent ''A'' ''g1'' ''r1'' 50 ''w1'' 950 1000]"

definition winOnlyStream :: "GameData list" where
  "winOnlyStream = [winEvent ''W'' ''g9'' ''r1'' 50 ''w1'' 950 1000]"

text \<open>
  A bet of one player and an entry of another kind, without amounts, of a second player on
  the same game; and two entries stamped before the epoch.
\<close>

definition lobbyStream :: "GameData list" where
  "lobbyStream =
     [betEvent ''A'' ''g1'' ''r1'' 100 ''b1'' 900 1000,
      otherEvent ''B'' ''g1'' 500 1001]"

definition preEpochStream :: "GameData list" where
  "preEpochStream =
     [betEvent ''A'' ''g1'' ''r1'' 100 ''b1'' 900 (- 5),
      winEvent ''A'' ''g1'' ''r1'' 50 ''w1'' 950 (- 3)]"

text \<open>
  A player with 150 bets totalling 1000 and one win of 2000, and a player with exactly 100
  bets totalling 1000 and one win of 1500.  The entries carry no identifiers.
\<close>

definition highRollerStream :: "GameData list" where
  "highRollerStream =
     replicate 100 (betEvent ''H'' ''g1'' ''r1'' 5 '''' 0 1000) @
     replicate 50 (betEvent ''H'' ''g1'' ''r1'' 10 '''' 0 1000) @
     [winEvent ''H'' ''g1'' ''r1'' 2000 '''' 0 1000]"

definition boundaryStream :: "GameData list" where
  "boundaryStream =
     replicate 100 (betEvent ''L'' ''g1'' ''r1'' 10 '''' 0 1000) @
     [winEvent ''L'' ''g1'' ''r1'' 1500 '''' 0 1000]"

text \<open>Six bets of one player, two of them with the greatest amount.\<close>

definition sixBetsStream :: "GameData list" where
  "sixBetsStream =
     [betEvent ''T'' ''g1'' ''r1'' 10 '''' 0 1000,
      betEvent ''T'' ''g1'' ''r2'' 60 '''' 0 1000,
      betEvent ''T'' ''g1'' ''r3'' 30 '''' 0 1000,
      betEvent ''T'' ''g1'' ''r4'' 60 '''' 0 1000,
      betEvent ''T'' ''g1'' ''r5'' 20 '''' 0 1000,
      betEvent ''T'' ''g1'' ''r6'' 50 '''' 0 1000]"

text \<open>
  Thirteen bets of one player: a first one of 50 and twelve of 100, in the rounds \<open>r01\<close>
  to \<open>r13\<close>.
\<close>

definition thirteenBetsStream :: "GameData list" where
  "thirteenBetsStream =
     map (\<lambda>(rnd, amount). betEvent ''A'' ''g1'' rnd amount '''' 0 1000)
       [(''r01'', 50), (''r02'', 100), (''r03'', 100), (''r04'', 100), (''r05'', 100),
        (''r06'', 100), (''r07'', 100), (''r08'', 100), (''r09'', 100), (''r10'', 100),
        (''r11'', 100), (''r12'', 100), (''r13'', 100)]"

text \<open>Two bets of one player, the greatest \<open>int64\<close> and one more.\<close>

definition overflowStream :: "GameData list" where
  "overflowStream =
     [betEvent ''A'' ''g1'' ''r1'' 9223372036854775807 '''' 0 1000,
      betEvent ''A'' ''g1'' ''r2'' 1 '''' 0 1001]"

text \<open>A bet entry without a stake that carries the identifier of \<open>firstBet\<close>.\<close>

definition zeroBet :: GameData where
  "zeroBet = betEvent ''A'' ''g1'' ''r0'' 0 ''b1'' 1000 999"

text \<open>
  Four entries of one player: a bet, the same bet again, a bet entry without a stake and
  an entry of another kind, each with its own balance.
\<close>

definition idleStream :: "GameData list" where
  "idleStream =
     [betEvent ''A'' ''g1'' ''r1'' 100 ''b1'' 900 1000,
      betEvent ''A'' ''g1'' ''r1'' 100 ''b1'' 850 1001,
      betEvent ''A'' ''g1'' ''r2'' 0 ''b2'' 700 1002,
      otherEvent ''A'' ''g1'' 500 1003]"

section \<open>One iteration of the loop\<close>

lemma isBet_not_isWin: "isBet d \<Longrightarrow> \<not> isWin d"
  by (auto simp: isBet_def isWin_def)

lemma observe_fields [simp]:
  "playerStats (observe E d s) = playerStats s"
  "gameStats (observe E d s) = gameStats s"
  "totalBets (observe E d s) = totalBets s"
  "totalWins (observe E d s) = totalWins s"
  "totalBetAmount (observe E d s) = totalBetAmount s"
  "totalWinAmount (observe E d s) = totalWinAmount s"
  "uniqueBetIDs (observe E d s) = uniqueBetIDs s"
  "uniqueWinIDs (observe E d s) = uniqueWinIDs s"
  "duplicateBets (observe E d s) = duplicateBets s"
  "duplicateWins (observe E d s) = duplicateWins s"
  by (simp_all add: observe_def Let_def)

lemma observe_sets [simp]:
  "uniquePlayers (observe E d s) = insert (PlayerID d) (uniquePlayers s)"
  "uniqueGames (observe E d s) = insert (GameID d) (uniqueGames s)"
  "playerBalances (observe E d s) =
     (playerBalances s)(PlayerID d := playerBalances s (PlayerID d) @ [Balance d])"
  by (simp_all add: observe_def Let_def)

lemma observe_maxTime:
  "maxTime (observe E d s) = (if Timestamp d > maxTime s then Timestamp d else maxTime s)"
  by (simp add: observe_def Let_def)

lemma observe_minTime:
  "minTime (observe E d s) =
     (if minTime s < 0 \<or> Timestamp d < minTime s then Timestamp d else minTime s)"
  by (simp add: observe_def Let_def)

lemma observe_timeStats:
  "timeStats (observe E d s) =
     (if map_of (timeStats s) (hourOf E d) = None
      then AList.update (hourOf E d) (zeroTimeStat\<lparr>Hour := hourOf E d\<rparr>) (timeStats s)
      else timeStats s)"
  by (auto simp: observe_def Let_def)

lemma step_dupBet:
  "dupBet s d \<Longrightarrow> step E d s = (observe E d s)\<lparr>duplicateBets := duplicateBets s + 1\<rparr>"
  by (simp add: step_def dupBet_def isBet_def Let_def)

lemma step_dupWin:
  "dupWin s d \<Longrightarrow> step E d s = (observe E d s)\<lparr>duplicateWins := duplicateWins s + 1\<rparr>"
  by (auto simp: step_def dupWin_def isWin_def Let_def)

lemma step_inert: "\<not> isBet d \<Longrightarrow> \<not> isWin d \<Longrightarrow> step E d s = observe E d s"
  by (auto simp: step_def isBet_def isWin_def Let_def)

lemma step_totals:
  "totalBets (step E d s) = (if freshBet s d then totalBets s + 1 else totalBets s)"
  "totalBetAmount (step E d s) =
     (if freshBet s d then totalBetAmount s + Bet d else totalBetAmount s)"
  "totalWins (step E d s) = (if freshWin s d then totalWins s + 1 else totalWins s)"
  "totalWinAmount (step E d s) =
     (if freshWin s d then totalWinAmount s + Win d else totalWinAmount s)"
  by (auto simp: step_def countBet_def countWin_def freshBet_def freshWin_def isBet_def
      isWin_def Let_def)

lemma step_duplicates:
  "duplicateBets (step E d s) = (if dupBet s d then duplicateBets s + 1 else duplicateBets s)"
  "duplicateWins (step E d s) = (if dupWin s d then duplicateWins s + 1 else duplicateWins s)"
  by (auto simp: step_def countBet_def countWin_def dupBet_def dupWin_def isBet_def
      isWin_def Let_def)

lemma step_ledger:
  "uniqueBetIDs (step E d s) =
     (if isBet d \<and> BetID d \<noteq> '''' then insert (BetID d) (uniqueBetIDs s) else uniqueBetIDs s)"
  "uniqueWinIDs (step E d s) =
     (if isWin d \<and> WinID d \<noteq> '''' then insert (WinID d) (uniqueWinIDs s) else uniqueWinIDs s)"
  by (auto simp: step_def countBet_def countWin_def isBet_def isWin_def Let_def)

lemma step_observed:
  "uniquePlayers (step E d s) = insert (PlayerID d) (uniquePlayers s)"
  "uniqueGames (step E d s) = insert (GameID d) (uniqueGames s)"
  "playerBalances (step E d s) =
     (playerBalances s)(PlayerID d := playerBalances s (PlayerID d) @ [Balance d])"
  "maxTime (step E d s) = (if Timestamp d > maxTime s then Timestamp d else maxTime s)"
  "minTime (step E d s) =
     (if minTime s < 0 \<or> Timestamp d < minTime s then Timestamp d else minTime s)"
  by (auto simp: step_def countBet_def countWin_def Let_def observe_maxTime observe_minTime)

lemma step_playerStats:
  "playerStats (step E d s) =
     (if freshBet s d
      then AList.update (PlayerID d) (playerBet E d (getPlayer (playerStats s) (PlayerID d)))
             (playerStats s)
      else if freshWin s d
      then AList.update (PlayerID d) (playerWin E d (getPlayer (playerStats s) (PlayerID d)))
             (playerStats s)
      else playerStats s)"
  by (auto simp: step_def countBet_def countWin_def freshBet_def freshWin_def isBet_def
      isWin_def Let_def playerBet_def playerWin_def topBetOf_def topWinOf_def)

lemma step_gameStats:
  "gameStats (step E d s) =
     (if freshBet s d
      then AList.update (GameID d)
             (if map_of (gameStats s) (GameID d) = None
              then (gameBet d (getGame (gameStats s) (GameID d)))\<lparr>Players := 0\<rparr>
              else gameBet d (getGame (gameStats s) (GameID d)))
             (gameStats s)
      else if freshWin s d
      then AList.update (GameID d) (gameWin d (getGame (gameStats s) (GameID d))) (gameStats s)
      else gameStats s)"
  by (auto simp: step_def countBet_def countWin_def freshBet_def freshWin_def isBet_def
      isWin_def Let_def gameBet_def gameWin_def)

lemma loop_append: "loop E (xs @ ys) s = loop E ys (loop E xs s)"
  by (induction xs arbitrary: s) simp_all

lemma aggregate_snoc: "aggregate E (xs @ [d]) = step E d (aggregate E xs)"
  by (simp add: aggregate_def loop_append)

lemma aggregate_Nil: "aggregate E [] = initState"
  by (simp add: aggregate_def)

section \<open>The loop and the accepted entries\<close>

lemma counted_Cons_step:
  "counted (uniqueBetIDs s) (uniqueWinIDs s) (d # ds) =
     (if freshBet s d \<or> freshWin s d then [d] else []) @
     counted (uniqueBetIDs (step E d s)) (uniqueWinIDs (step E d s)) ds"
  by (auto simp: step_ledger freshBet_def freshWin_def insert_absorb dest: isBet_not_isWin)

lemma fresh_exclusive: "freshBet s d \<Longrightarrow> \<not> freshWin s d"
  by (auto simp: freshBet_def freshWin_def dest: isBet_not_isWin)

lemma loop_uniqueBetIDs:
  "uniqueBetIDs (loop E xs s) =
     uniqueBetIDs s \<union> {BetID d | d. d \<in> set xs \<and> isBet d \<and> BetID d \<noteq> ''''}"
  by (induction xs arbitrary: s) (auto simp: step_ledger)

lemma loop_uniqueWinIDs:
  "uniqueWinIDs (loop E xs s) =
     uniqueWinIDs s \<union> {WinID d | d. d \<in> set xs \<and> isWin d \<and> WinID d \<noteq> ''''}"
  by (induction xs arbitrary: s) (auto simp: step_ledger)

lemma loop_totalBetAmount:
  "totalBetAmount (loop E xs s) = totalBetAmount s +
     sum_list (map Bet (filter isBet (counted (uniqueBetIDs s) (uniqueWinIDs s) xs)))"
proof (induction xs arbitrary: s)
  case Nil
  show ?case by simp
next
  case (Cons d ds)
  show ?case
    unfolding loop.simps Cons.IH counted_Cons_step [of s d ds E]
    by (auto simp: step_totals freshBet_def freshWin_def dest: isBet_not_isWin)
qed

lemma loop_totalBets:
  "totalBets (loop E xs s) = totalBets s +
     int (length (filter isBet (counted (uniqueBetIDs s) (uniqueWinIDs s) xs)))"
proof (induction xs arbitrary: s)
  case Nil
  show ?case by simp
next
  case (Cons d ds)
  show ?case
    unfolding loop.simps Cons.IH counted_Cons_step [of s d ds E]
    by (auto simp: step_totals freshBet_def freshWin_def dest: isBet_not_isWin)
qed

lemma loop_totalWinAmount:
  "totalWinAmount (loop E xs s) = totalWinAmount s +
     sum_list (map Win (filter isWin (counted (uniqueBetIDs s) (uniqueWinIDs s) xs)))"
proof (induction xs arbitrary: s)
  case Nil
  show ?case by simp
next
  case (Cons d ds)
  show ?case
    unfolding loop.simps Cons.IH counted_Cons_step [of s d ds E]
    by (auto simp: step_totals freshBet_def freshWin_def dest: isBet_not_isWin)
qed

lemma loop_totalWins:
  "totalWins (loop E xs s) = totalWins s +
     int (length (filter isWin (counted (uniqueBetIDs s) (uniqueWinIDs s) xs)))"
proof (induction xs arbitrary: s)
  case Nil
  show ?case by simp
next
  case (Cons d ds)
  show ?case
    unfolding loop.simps Cons.IH counted_Cons_step [of s d ds E]
    by (auto simp: step_totals freshBet_def freshWin_def dest: isBet_not_isWin)
qed

lemma sum_list_word_of_int:
  "(sum_list ws :: int64) = word_of_int (sum_list (map sint ws))"
  by (induction ws) simp_all

lemma sint_sum_list_exact:
  assumes "- (2 ^ 63) \<le> sum_list (map sint ws)" and "sum_list (map sint ws) < 2 ^ 63"
  shows "sint (sum_list ws :: int64) = sum_list (map sint ws)"
  unfolding sum_list_word_of_int [of ws] using assms
  by (simp add: sint_sbintrunc' signed_take_bit_int_eq_self)

lemma summary_totals:
  "Summary.TotalBets (makeSummary E s) = totalBets s"
  "Summary.TotalWins (makeSummary E s) = totalWins s"
  "Summary.TotalBetAmount (makeSummary E s) = totalBetAmount s"
  "Summary.TotalWinAmount (makeSummary E s) = totalWinAmount s"
  "Summary.NetResult (makeSummary E s) = totalWinAmount s - totalBetAmount s"
  by (simp_all add: makeSummary_def Let_def)

lemma report_summary: "Summary (generateReport E xs) = makeSummary E (aggregate E xs)"
  by (simp add: generateReport_def finalize_def)

lemma counted_subset: "set (counted bs ws xs) \<subseteq> {d \<in> set xs. isBet d \<or> isWin d}"
  by (induction xs arbitrary: bs ws) auto

lemma dupBet_aggregate:
  "dupBet (aggregate E pre) d \<longleftrightarrow>
     isBet d \<and> BetID d \<noteq> '''' \<and> (\<exists>e\<in>set pre. isBet e \<and> BetID e = BetID d)"
proof -
  have "uniqueBetIDs (aggregate E pre) = {BetID e | e. e \<in> set pre \<and> isBet e \<and> BetID e \<noteq> []}"
    by (simp add: aggregate_def loop_uniqueBetIDs initState_def)
  then show ?thesis
    unfolding dupBet_def by simp metis
qed

lemma dupWin_aggregate:
  "dupWin (aggregate E pre) d \<longleftrightarrow>
     isWin d \<and> WinID d \<noteq> '''' \<and> (\<exists>e\<in>set pre. isWin e \<and> WinID e = WinID d)"
proof -
  have "uniqueWinIDs (aggregate E pre) = {WinID e | e. e \<in> set pre \<and> isWin e \<and> WinID e \<noteq> []}"
    by (simp add: aggregate_def loop_uniqueWinIDs initState_def)
  then show ?thesis
    unfolding dupWin_def by simp metis
qed

lemma freshBet_aggregate:
  "freshBet (aggregate E pre) d \<longleftrightarrow>
     isBet d \<and> (BetID d = '''' \<or> (\<forall>e\<in>set pre. \<not> (isBet e \<and> BetID e = BetID d)))"
  using dupBet_aggregate [of E pre d] by (auto simp: freshBet_def dupBet_def)

lemma freshWin_aggregate:
  "freshWin (aggregate E pre) d \<longleftrightarrow>
     isWin d \<and> (WinID d = '''' \<or> (\<forall>e\<in>set pre. \<not> (isWin e \<and> WinID e = WinID d)))"
  using dupWin_aggregate [of E pre d] by (auto simp: freshWin_def dupWin_def)

lemma counted_snoc_loop:
  "counted (uniqueBetIDs s) (uniqueWinIDs s) (pre @ [d]) =
     counted (uniqueBetIDs s) (uniqueWinIDs s) pre @
     (if freshBet (loop E pre s) d \<or> freshWin (loop E pre s) d then [d] else [])"
proof (induction pre arbitrary: s)
  case Nil
  show ?case using counted_Cons_step [of s d "[]" E] by simp
next
  case (Cons x xs)
  show ?case
    unfolding append_Cons counted_Cons_step [of s x _ E] Cons.IH loop.simps by simp
qed

lemma counted_snoc:
  "counted {} {} (pre @ [d]) =
     counted {} {} pre @
     (if isBet d \<and> (BetID d = '''' \<or> (\<forall>e\<in>set pre. \<not> (isBet e \<and> BetID e = BetID d)))
         \<or> isWin d \<and> (WinID d = '''' \<or> (\<forall>e\<in>set pre. \<not> (isWin e \<and> WinID e = WinID d)))
      then [d] else [])"
  using counted_snoc_loop [of "initState" pre d E]
  unfolding aggregate_def [symmetric] freshBet_aggregate freshWin_aggregate
  by (simp add: initState_def)

lemma acceptedBets_snoc:
  "acceptedBets (pre @ [d]) =
     acceptedBets pre @
     (if isBet d \<and> (BetID d = '''' \<or> (\<forall>e\<in>set pre. \<not> (isBet e \<and> BetID e = BetID d)))
      then [d] else [])"
  unfolding acceptedBets_def counted_snoc by (auto dest: isBet_not_isWin)

lemma acceptedWins_snoc:
  "acceptedWins (pre @ [d]) =
     acceptedWins pre @
     (if isWin d \<and> (WinID d = '''' \<or> (\<forall>e\<in>set pre. \<not> (isWin e \<and> WinID e = WinID d)))
      then [d] else [])"
  unfolding acceptedWins_def counted_snoc by (auto dest: isBet_not_isWin)

section \<open>The records of the players and of the games\<close>

lemma getPlayer_update:
  "getPlayer (AList.update k v m) k' = (if k' = k then v else getPlayer m k')"
  by (simp add: getPlayer_def update_conv')

lemma getGame_update:
  "getGame (AList.update k v m) k' = (if k' = k then v else getGame m k')"
  by (simp add: getGame_def update_conv')

lemma getPlayer_Nil: "getPlayer [] k = zeroPlayerStat"
  by (simp add: getPlayer_def)

lemma getGame_Nil: "getGame [] k = zeroGameStat"
  by (simp add: getGame_def)

lemma map_of_map_keyed:
  "map_of (map (\<lambda>(k, v). (k, f k v)) al) k = map_option (f k) (map_of al k)"
  by (induction al) auto

lemma gameBet_new:
  "map_of m k = None \<Longrightarrow> (gameBet d (getGame m k))\<lparr>Players := 0\<rparr> = gameBet d (getGame m k)"
  by (simp add: getGame_def gameBet_def zeroGameStat_def)

lemma step_gameStats':
  "gameStats (step E d s) =
     (if freshBet s d \<or> freshWin s d
      then AList.update (GameID d) (gameApply d (getGame (gameStats s) (GameID d))) (gameStats s)
      else gameStats s)"
  by (auto simp: step_gameStats gameApply_def gameBet_new freshBet_def freshWin_def
      dest: isBet_not_isWin)

lemma step_playerStats':
  "playerStats (step E d s) =
     (if freshBet s d \<or> freshWin s d
      then AList.update (PlayerID d) (playerApply E d (getPlayer (playerStats s) (PlayerID d)))
             (playerStats s)
      else playerStats s)"
  by (auto simp: step_playerStats playerApply_def freshBet_def freshWin_def
      dest: isBet_not_isWin)

lemma loop_getPlayer:
  "getPlayer (playerStats (loop E xs s)) k =
     fold (playerApply E)
       (filter (\<lambda>d. PlayerID d = k) (counted (uniqueBetIDs s) (uniqueWinIDs s) xs))
       (getPlayer (playerStats s) k)"
proof (induction xs arbitrary: s)
  case Nil
  show ?case by simp
next
  case (Cons d ds)
  show ?case
    unfolding loop.simps Cons.IH counted_Cons_step [of s d ds E]
    by (simp add: step_playerStats' getPlayer_update)
qed

lemma loop_getGame:
  "getGame (gameStats (loop E xs s)) k =
     fold gameApply
       (filter (\<lambda>d. GameID d = k) (counted (uniqueBetIDs s) (uniqueWinIDs s) xs))
       (getGame (gameStats s) k)"
proof (induction xs arbitrary: s)
  case Nil
  show ?case by simp
next
  case (Cons d ds)
  show ?case
    unfolding loop.simps Cons.IH counted_Cons_step [of s d ds E]
    by (simp add: step_gameStats' getGame_update)
qed

lemma loop_player_keys:
  "fst ` set (playerStats (loop E xs s)) =
     fst ` set (playerStats s) \<union>
     PlayerID ` set (counted (uniqueBetIDs s) (uniqueWinIDs s) xs)"
proof (induction xs arbitrary: s)
  case Nil
  show ?case by simp
next
  case (Cons d ds)
  show ?case
    unfolding loop.simps Cons.IH counted_Cons_step [of s d ds E]
    by (auto simp: step_playerStats' dom_update [unfolded dom_map_of_conv_image_fst])
qed

lemma loop_game_keys:
  "fst ` set (gameStats (loop E xs s)) =
     fst ` set (gameStats s) \<union>
     GameID ` set (counted (uniqueBetIDs s) (uniqueWinIDs s) xs)"
proof (induction xs arbitrary: s)
  case Nil
  show ?case by simp
next
  case (Cons d ds)
  show ?case
    unfolding loop.simps Cons.IH counted_Cons_step [of s d ds E]
    by (auto simp: step_gameStats' dom_update [unfolded dom_map_of_conv_image_fst])
qed

lemma loop_player_distinct:
  "distinct (map fst (playerStats s)) \<Longrightarrow> distinct (map fst (playerStats (loop E xs s)))"
  by (induction xs arbitrary: s) (simp_all add: step_playerStats' distinct_update)

lemma loop_game_distinct:
  "distinct (map fst (gameStats s)) \<Longrightarrow> distinct (map fst (gameStats (loop E xs s)))"
  by (induction xs arbitrary: s) (simp_all add: step_gameStats' distinct_update)

lemma aggregate_player:
  "map_of (playerStats (aggregate E xs)) k =
     (if playerEvents k xs = [] then None
      else Some (fold (playerApply E) (playerEvents k xs) zeroPlayerStat))"
proof -
  have keys: "k \<in> fst ` set (playerStats (aggregate E xs)) \<longleftrightarrow> playerEvents k xs \<noteq> []"
    by (auto simp: aggregate_def loop_player_keys initState_def playerEvents_def filter_empty_conv)
  have val: "getPlayer (playerStats (aggregate E xs)) k =
      fold (playerApply E) (playerEvents k xs) zeroPlayerStat"
    using loop_getPlayer [of E xs initState k]
    by (simp add: aggregate_def playerEvents_def initState_def getPlayer_Nil)
  show ?thesis
  proof (cases "map_of (playerStats (aggregate E xs)) k")
    case None
    then have "k \<notin> fst ` set (playerStats (aggregate E xs))"
      by (simp add: map_of_eq_None_iff)
    with None keys show ?thesis by simp
  next
    case (Some p)
    then have "k \<in> fst ` set (playerStats (aggregate E xs))"
      by (metis map_of_eq_None_iff option.distinct(1))
    moreover from Some val have "p = fold (playerApply E) (playerEvents k xs) zeroPlayerStat"
      by (simp add: getPlayer_def)
    ultimately show ?thesis using Some keys by simp
  qed
qed

lemma aggregate_game:
  "map_of (gameStats (aggregate E xs)) k =
     (if gameEvents k xs = [] then None
      else Some (fold gameApply (gameEvents k xs) zeroGameStat))"
proof -
  have keys: "k \<in> fst ` set (gameStats (aggregate E xs)) \<longleftrightarrow> gameEvents k xs \<noteq> []"
    by (auto simp: aggregate_def loop_game_keys initState_def gameEvents_def filter_empty_conv)
  have val: "getGame (gameStats (aggregate E xs)) k =
      fold gameApply (gameEvents k xs) zeroGameStat"
    using loop_getGame [of E xs initState k]
    by (simp add: aggregate_def gameEvents_def initState_def getGame_Nil)
  show ?thesis
  proof (cases "map_of (gameStats (aggregate E xs)) k")
    case None
    then have "k \<notin> fst ` set (gameStats (aggregate E xs))"
      by (simp add: map_of_eq_None_iff)
    with None keys show ?thesis by simp
  next
    case (Some g)
    then have "k \<in> fst ` set (gameStats (aggregate E xs))"
      by (metis map_of_eq_None_iff option.distinct(1))
    moreover from Some val have "g = fold gameApply (gameEvents k xs) zeroGameStat"
      by (simp add: getGame_def)
    ultimately show ?thesis using Some keys by simp
  qed
qed

lemma aggregate_distinct:
  "distinct (map fst (playerStats (aggregate E xs)))"
  "distinct (map fst (gameStats (aggregate E xs)))"
  by (simp_all add: aggregate_def loop_player_distinct loop_game_distinct initState_def)

text \<open>What the fold leaves in each field of a player record.\<close>

lemma fold_player_fields:
  "PlayerStat.RTP (fold (playerApply E) cs p) = PlayerStat.RTP p"
  "PlayerStat.NetResult (fold (playerApply E) cs p) = PlayerStat.NetResult p"
  "TopBets (fold (playerApply E) cs p) = TopBets p @ map (topBetOf E) (filter isBet cs)"
  "TopWins (fold (playerApply E) cs p) = TopWins p @ map (topWinOf E) (filter (\<lambda>d. \<not> isBet d) cs)"
  "PlayerStat.TotalBets (fold (playerApply E) cs p) =
     PlayerStat.TotalBets p + int (length (filter isBet cs))"
  "PlayerStat.TotalBetAmount (fold (playerApply E) cs p) =
     PlayerStat.TotalBetAmount p + sum_list (map Bet (filter isBet cs))"
  "PlayerStat.TotalWins (fold (playerApply E) cs p) =
     PlayerStat.TotalWins p + int (length (filter (\<lambda>d. \<not> isBet d) cs))"
  "PlayerStat.TotalWinAmount (fold (playerApply E) cs p) =
     PlayerStat.TotalWinAmount p + sum_list (map Win (filter (\<lambda>d. \<not> isBet d) cs))"
  by (induction cs arbitrary: p; simp add: playerApply_def playerBet_def playerWin_def)+

lemma fold_player_LastBalance:
  "cs \<noteq> [] \<Longrightarrow> LastBalance (fold (playerApply E) cs p) = Balance (last cs)"
proof (induction cs arbitrary: p)
  case Nil
  then show ?case by simp
next
  case (Cons c cs)
  show ?case
  proof (cases "cs = []")
    case True
    then show ?thesis by (simp add: playerApply_def playerBet_def playerWin_def)
  next
    case False
    then show ?thesis using Cons.IH by simp
  qed
qed

lemma fold_player_PlayerID:
  "\<forall>d\<in>set cs. PlayerID d = k \<Longrightarrow>
     PlayerStat.PlayerID (fold (playerApply E) cs p) =
       (if \<exists>d\<in>set cs. isBet d then k else PlayerStat.PlayerID p)"
  by (induction cs arbitrary: p) (auto simp: playerApply_def playerBet_def playerWin_def)

lemma fold_game_fields:
  "GameStat.RTP (fold gameApply cs g) = GameStat.RTP g"
  "Players (fold gameApply cs g) = Players g"
  "GameStat.TotalBets (fold gameApply cs g) = GameStat.TotalBets g + int (length (filter isBet cs))"
  "GameStat.TotalBetAmount (fold gameApply cs g) =
     GameStat.TotalBetAmount g + sum_list (map Bet (filter isBet cs))"
  "GameStat.TotalWins (fold gameApply cs g) =
     GameStat.TotalWins g + int (length (filter (\<lambda>d. \<not> isBet d) cs))"
  "GameStat.TotalWinAmount (fold gameApply cs g) =
     GameStat.TotalWinAmount g + sum_list (map Win (filter (\<lambda>d. \<not> isBet d) cs))"
  by (induction cs arbitrary: g; simp add: gameApply_def gameBet_def gameWin_def)+

lemma fold_game_GameID:
  "\<forall>d\<in>set cs. GameID d = k \<Longrightarrow>
     GameStat.GameID (fold gameApply cs g) =
       (if \<exists>d\<in>set cs. isBet d then k else GameStat.GameID g)"
  by (induction cs arbitrary: g) (auto simp: gameApply_def gameBet_def gameWin_def)

lemma counted_kinds: "d \<in> set (counted bs ws xs) \<Longrightarrow> isBet d \<or> isWin d"
  using counted_subset [of bs ws xs] by auto

lemma report_players:
  "map_of (PlayerStats (generateReport E xs)) k =
     map_option (finalizePlayer E) (map_of (playerStats (aggregate E xs)) k)"
  by (simp add: generateReport_def finalize_def map_of_map)

lemma report_games:
  "map_of (GameStats (generateReport E xs)) k =
     map_option (finalizeGame E xs k) (map_of (gameStats (aggregate E xs)) k)"
  by (simp add: generateReport_def finalize_def map_of_map_keyed)

section \<open>Evaluating the examples\<close>

lemmas example_defs = exampleEnv_def betEvent_def winEvent_def
  isBet_def isWin_def dupBet_def dupWin_def freshBet_def freshWin_def word_sless_alt

lemmas model_defs = aggregate_def step_def observe_def countBet_def countWin_def initState_def
  hourOf_def truncate_def Let_def getPlayer_def getGame_def getTime_def zeroPlayerStat_def
  zeroGameStat_def zeroTimeStat_def

section \<open>Conservation of the totals\<close>

lemma accepted_disjoint: "set (acceptedBets xs) \<inter> set (acceptedWins xs) = {}"
  by (auto simp: acceptedBets_def acceptedWins_def dest: isBet_not_isWin)

lemma step_one_side:
  "(totalBets (step E d s) = totalBets s \<and> totalBetAmount (step E d s) = totalBetAmount s) \<or>
   (totalWins (step E d s) = totalWins s \<and> totalWinAmount (step E d s) = totalWinAmount s)"
  by (auto simp: step_totals dest: fresh_exclusive)

lemma aggregate_bet_totals:
  "totalBetAmount (aggregate E xs) = sum_list (map Bet (acceptedBets xs))"
  "totalBets (aggregate E xs) = int (length (acceptedBets xs))"
  by (simp_all add: aggregate_def loop_totalBetAmount loop_totalBets acceptedBets_def
      initState_def)

lemma aggregate_win_totals:
  "totalWinAmount (aggregate E xs) = sum_list (map Win (acceptedWins xs))"
  "totalWins (aggregate E xs) = int (length (acceptedWins xs))"
  by (simp_all add: aggregate_def loop_totalWinAmount loop_totalWins acceptedWins_def
      initState_def)

lemma accepted_amounts_nonneg:
  "0 \<le> sum_list (map (\<lambda>d. sint (Bet d)) (acceptedBets xs))"
  "0 \<le> sum_list (map (\<lambda>d. sint (Win d)) (acceptedWins xs))"
  by (auto intro!: sum_list_nonneg simp: acceptedBets_def acceptedWins_def isBet_def isWin_def
      word_sless_alt)

text \<open>
  Claim C3, as the code has it.  The total bet amount of the summary is the sum, in the
  wrapping arithmetic of \<open>int64\<close>, of the amounts of the accepted bets (message
  \<open>SendBet\<close>, positive amount, not a duplicate), each once, and their number is the total
  bet count; the same holds for the wins; no entry is accepted both as a bet and as a win,
  and no iteration of the loop changes both the bet totals and the win totals.  Whenever
  the exact sum of the amounts is below \<open>2 ^ 63\<close>, the total read as an integer is that
  exact sum.  Lemmas \<open>acceptedBets_snoc\<close>
  and \<open>acceptedWins_snoc\<close> say which entries are accepted: those that pass the guard of
  their branch and carry no identifier, or an identifier that no earlier entry passing the
  same guard carries.
\<close>

theorem C3_conservation:
  "Summary.TotalBetAmount (Summary (generateReport E xs)) = sum_list (map Bet (acceptedBets xs))
   \<and> Summary.TotalBets (Summary (generateReport E xs)) = int (length (acceptedBets xs))
   \<and> Summary.TotalWinAmount (Summary (generateReport E xs)) =
       sum_list (map Win (acceptedWins xs))
   \<and> Summary.TotalWins (Summary (generateReport E xs)) = int (length (acceptedWins xs))
   \<and> set (acceptedBets xs) \<inter> set (acceptedWins xs) = {}
   \<and> (\<forall>s d. (totalBets (step E d s) = totalBets s \<and>
               totalBetAmount (step E d s) = totalBetAmount s) \<or>
              (totalWins (step E d s) = totalWins s \<and>
               totalWinAmount (step E d s) = totalWinAmount s))
   \<and> (sum_list (map (\<lambda>d. sint (Bet d)) (acceptedBets xs)) < 2 ^ 63 \<longrightarrow>
        sint (Summary.TotalBetAmount (Summary (generateReport E xs))) =
          sum_list (map (\<lambda>d. sint (Bet d)) (acceptedBets xs)))
   \<and> (sum_list (map (\<lambda>d. sint (Win d)) (acceptedWins xs)) < 2 ^ 63 \<longrightarrow>
        sint (Summary.TotalWinAmount (Summary (generateReport E xs))) =
          sum_list (map (\<lambda>d. sint (Win d)) (acceptedWins xs)))"
proof -
  have bets: "sum_list (map (\<lambda>d. sint (Bet d)) (acceptedBets xs)) < 2 ^ 63 \<Longrightarrow>
      sint (sum_list (map Bet (acceptedBets xs))) =
        sum_list (map (\<lambda>d. sint (Bet d)) (acceptedBets xs))"
    using sint_sum_list_exact [of "map Bet (acceptedBets xs)"] accepted_amounts_nonneg(1) [of xs]
    by (simp add: comp_def)
  have wins: "sum_list (map (\<lambda>d. sint (Win d)) (acceptedWins xs)) < 2 ^ 63 \<Longrightarrow>
      sint (sum_list (map Win (acceptedWins xs))) =
        sum_list (map (\<lambda>d. sint (Win d)) (acceptedWins xs))"
    using sint_sum_list_exact [of "map Win (acceptedWins xs)"] accepted_amounts_nonneg(2) [of xs]
    by (simp add: comp_def)
  show ?thesis
    using bets wins
    by (simp add: report_summary summary_totals aggregate_bet_totals aggregate_win_totals
        accepted_disjoint step_one_side)
qed

lemma scenario_accepted:
  "acceptedBets scenarioStream = [betEvent ''A'' ''g1'' ''r1'' 100 ''b1'' 900 1000]"
  "acceptedWins scenarioStream = [winEvent ''A'' ''g1'' ''r1'' 50 ''w1'' 950 1002]"
  by (simp_all add: acceptedBets_def acceptedWins_def scenarioStream_def example_defs)

theorem C3_conservation_witness:
  "sum_list (map (\<lambda>d. sint (Bet d)) (acceptedBets scenarioStream)) < 2 ^ 63
   \<and> sum_list (map (\<lambda>d. sint (Win d)) (acceptedWins scenarioStream)) < 2 ^ 63
   \<and> sint (Summary.TotalBetAmount (Summary (generateReport exampleEnv scenarioStream))) = 100
   \<and> sint (Summary.TotalWinAmount (Summary (generateReport exampleEnv scenarioStream))) = 50
   \<and> Summary.TotalBets (Summary (generateReport exampleEnv scenarioStream)) = 1
   \<and> Summary.TotalWins (Summary (generateReport exampleEnv scenarioStream)) = 1"
  using C3_conservation [of exampleEnv scenarioStream]
  by (simp add: scenario_accepted betEvent_def winEvent_def)

text \<open>
  Claim C3 as stated fails where the amounts add up beyond \<open>int64\<close>.  Both bets of
  \<open>overflowStream\<close> are accepted; their amounts, \<open>2 ^ 63 - 1\<close> and 1, add up to \<open>2 ^ 63\<close>,
  and the total bet amount of the summary is \<open>- (2 ^ 63)\<close>.
\<close>

theorem C3_conservation_counterexample:
  "acceptedBets overflowStream = overflowStream
   \<and> map (\<lambda>d. sint (Bet d)) (acceptedBets overflowStream) = [2 ^ 63 - 1, 1]
   \<and> sum_list (map (\<lambda>d. sint (Bet d)) (acceptedBets overflowStream)) = 2 ^ 63
   \<and> sint (Summary.TotalBetAmount (Summary (generateReport exampleEnv overflowStream)))
       = - (2 ^ 63)
   \<and> sint (Summary.TotalBetAmount (Summary (generateReport exampleEnv overflowStream)))
       \<noteq> sum_list (map (\<lambda>d. sint (Bet d)) (acceptedBets overflowStream))"
proof -
  have acc: "acceptedBets overflowStream = overflowStream"
    by (simp add: acceptedBets_def overflowStream_def example_defs)
  have total: "Summary.TotalBetAmount (Summary (generateReport exampleEnv overflowStream)) =
      9223372036854775807 + 1"
    by (simp add: report_summary summary_totals aggregate_bet_totals acc)
       (simp add: overflowStream_def betEvent_def)
  show ?thesis
    unfolding total acc by (simp add: overflowStream_def betEvent_def)
qed
section \<open>Duplicates\<close>

lemma hourFigures_observe:
  "hourFigures (timeStats (observe E d s)) h = hourFigures (timeStats s) h"
  by (auto simp: observe_timeStats hourFigures_def getTime_def update_conv' zeroTimeStat_def)

lemma step_timeStats_dup:
  "dupBet s d \<or> dupWin s d \<Longrightarrow> timeStats (step E d s) = timeStats (observe E d s)"
  by (auto simp: step_dupBet step_dupWin)

lemma dup_not_fresh:
  "dupBet s d \<or> dupWin s d \<Longrightarrow> \<not> freshBet s d \<and> \<not> freshWin s d"
  by (auto simp: dupBet_def dupWin_def freshBet_def freshWin_def dest: isBet_not_isWin)

lemma dup_step_frame:
  assumes "dupBet s d \<or> dupWin s d"
  shows "totalBets (step E d s) = totalBets s" "totalWins (step E d s) = totalWins s"
    "totalBetAmount (step E d s) = totalBetAmount s"
    "totalWinAmount (step E d s) = totalWinAmount s"
    "playerStats (step E d s) = playerStats s" "gameStats (step E d s) = gameStats s"
    "uniqueBetIDs (step E d s) = uniqueBetIDs s" "uniqueWinIDs (step E d s) = uniqueWinIDs s"
    "hourFigures (timeStats (step E d s)) h = hourFigures (timeStats s) h"
  using dup_not_fresh [OF assms] assms
  by (auto simp: step_totals step_playerStats step_gameStats step_ledger step_timeStats_dup
      hourFigures_observe dupBet_def dupWin_def insert_absorb dest: isBet_not_isWin)

text \<open>
  Claim C2, as the code has it.  When an entry is judged a duplicate (it passes the guard
  of its branch and an earlier entry of the stream that passed the same guard carried the
  same non-empty identifier), no global, per-player or per-game statistic changes, neither
  identifier ledger changes, and the four figures of every hour bucket stay what they were;
  the duplicate counter of its kind goes up by one.  What every entry does is still done:
  the player and the game join the sets of unique players and games, the time bounds take
  the timestamp into account, the balance joins the history of the player, and the hour
  bucket of the entry is created, with zero figures, if it did not exist.
\<close>

theorem C2_duplicate_frame:
  assumes "(isBet d \<and> BetID d \<noteq> '''' \<and> (\<exists>e\<in>set pre. isBet e \<and> BetID e = BetID d)) \<or>
           (isWin d \<and> WinID d \<noteq> '''' \<and> (\<exists>e\<in>set pre. isWin e \<and> WinID e = WinID d))"
  shows "totalBets (aggregate E (pre @ [d])) = totalBets (aggregate E pre)
   \<and> totalWins (aggregate E (pre @ [d])) = totalWins (aggregate E pre)
   \<and> totalBetAmount (aggregate E (pre @ [d])) = totalBetAmount (aggregate E pre)
   \<and> totalWinAmount (aggregate E (pre @ [d])) = totalWinAmount (aggregate E pre)
   \<and> playerStats (aggregate E (pre @ [d])) = playerStats (aggregate E pre)
   \<and> gameStats (aggregate E (pre @ [d])) = gameStats (aggregate E pre)
   \<and> uniqueBetIDs (aggregate E (pre @ [d])) = uniqueBetIDs (aggregate E pre)
   \<and> uniqueWinIDs (aggregate E (pre @ [d])) = uniqueWinIDs (aggregate E pre)
   \<and> (\<forall>h. hourFigures (timeStats (aggregate E (pre @ [d]))) h =
           hourFigures (timeStats (aggregate E pre)) h)
   \<and> duplicateBets (aggregate E (pre @ [d])) =
       duplicateBets (aggregate E pre) + (if isBet d then 1 else 0)
   \<and> duplicateWins (aggregate E (pre @ [d])) =
       duplicateWins (aggregate E pre) + (if isWin d then 1 else 0)
   \<and> uniquePlayers (aggregate E (pre @ [d])) = insert (PlayerID d) (uniquePlayers (aggregate E pre))
   \<and> uniqueGames (aggregate E (pre @ [d])) = insert (GameID d) (uniqueGames (aggregate E pre))
   \<and> maxTime (aggregate E (pre @ [d])) =
       (if Timestamp d > maxTime (aggregate E pre) then Timestamp d
        else maxTime (aggregate E pre))
   \<and> minTime (aggregate E (pre @ [d])) =
       (if minTime (aggregate E pre) < 0 \<or> Timestamp d < minTime (aggregate E pre)
        then Timestamp d else minTime (aggregate E pre))
   \<and> playerBalances (aggregate E (pre @ [d])) =
       (playerBalances (aggregate E pre))
         (PlayerID d := playerBalances (aggregate E pre) (PlayerID d) @ [Balance d])
   \<and> timeStats (aggregate E (pre @ [d])) =
       (if map_of (timeStats (aggregate E pre)) (hourOf E d) = None
        then AList.update (hourOf E d) (zeroTimeStat\<lparr>Hour := hourOf E d\<rparr>)
               (timeStats (aggregate E pre))
        else timeStats (aggregate E pre))"
proof -
  have dup: "dupBet (aggregate E pre) d \<or> dupWin (aggregate E pre) d"
    using assms by (simp add: dupBet_aggregate dupWin_aggregate)
  have counters:
    "duplicateBets (step E d (aggregate E pre)) =
       duplicateBets (aggregate E pre) + (if isBet d then 1 else 0)"
    "duplicateWins (step E d (aggregate E pre)) =
       duplicateWins (aggregate E pre) + (if isWin d then 1 else 0)"
    using dup by (auto simp: step_duplicates dupBet_def dupWin_def dest: isBet_not_isWin)
  have ts: "timeStats (step E d (aggregate E pre)) = timeStats (observe E d (aggregate E pre))"
    using dup by (rule step_timeStats_dup)
  have hours: "\<forall>h. hourFigures (timeStats (step E d (aggregate E pre))) h =
      hourFigures (timeStats (aggregate E pre)) h"
    by (simp add: dup_step_frame(9) [OF dup])
  have buckets: "timeStats (step E d (aggregate E pre)) =
      (if map_of (timeStats (aggregate E pre)) (hourOf E d) = None
       then AList.update (hourOf E d) (zeroTimeStat\<lparr>Hour := hourOf E d\<rparr>)
              (timeStats (aggregate E pre))
       else timeStats (aggregate E pre))"
    by (simp only: ts observe_timeStats)
  show ?thesis
    unfolding aggregate_snoc
    using hours buckets
    by (simp only: dup_step_frame(1-8) [OF dup] counters step_observed simp_thms)
qed

theorem C2_duplicate_frame_witness:
  "isBet replayedBet \<and> BetID replayedBet \<noteq> '''' \<and> isBet firstBet
   \<and> BetID firstBet = BetID replayedBet
   \<and> totalBets (aggregate exampleEnv ([firstBet] @ [replayedBet])) = 1
   \<and> duplicateBets (aggregate exampleEnv ([firstBet] @ [replayedBet])) = 1
   \<and> uniquePlayers (aggregate exampleEnv ([firstBet] @ [replayedBet])) = {''A'', ''B''}"
proof -
  have h: "(isBet replayedBet \<and> BetID replayedBet \<noteq> '''' \<and>
            (\<exists>e\<in>set [firstBet]. isBet e \<and> BetID e = BetID replayedBet)) \<or>
           (isWin replayedBet \<and> WinID replayedBet \<noteq> '''' \<and>
            (\<exists>e\<in>set [firstBet]. isWin e \<and> WinID e = WinID replayedBet))"
    by (simp add: firstBet_def replayedBet_def example_defs)
  have first: "totalBets (aggregate exampleEnv [firstBet]) = 1"
    "duplicateBets (aggregate exampleEnv [firstBet]) = 0"
    "uniquePlayers (aggregate exampleEnv [firstBet]) = {''A''}"
    by (simp_all add: firstBet_def example_defs model_defs)
  show ?thesis
    using C2_duplicate_frame [OF h, of exampleEnv] first
    by (auto simp: firstBet_def replayedBet_def example_defs)
qed

text \<open>
  Claim C2 as stated fails: the second entry below is a duplicate of the first, and after
  it the set of unique players, the set of unique games, the upper time bound and the
  balance history of player \<open>B\<close> are not what they were.
\<close>

theorem C2_duplicate_frame_counterexample:
  "dupBet (aggregate exampleEnv [firstBet]) replayedBet
   \<and> uniquePlayers (aggregate exampleEnv [firstBet]) = {''A''}
   \<and> uniquePlayers (aggregate exampleEnv [firstBet, replayedBet]) = {''A'', ''B''}
   \<and> uniqueGames (aggregate exampleEnv [firstBet]) = {''g1''}
   \<and> uniqueGames (aggregate exampleEnv [firstBet, replayedBet]) = {''g1'', ''g2''}
   \<and> maxTime (aggregate exampleEnv [firstBet]) = 1000
   \<and> maxTime (aggregate exampleEnv [firstBet, replayedBet]) = 5000
   \<and> playerBalances (aggregate exampleEnv [firstBet]) ''B'' = []
   \<and> playerBalances (aggregate exampleEnv [firstBet, replayedBet]) ''B'' = [400]
   \<and> aggregate exampleEnv [firstBet, replayedBet] \<noteq>
       (aggregate exampleEnv [firstBet])
         \<lparr>duplicateBets := duplicateBets (aggregate exampleEnv [firstBet]) + 1\<rparr>"
proof -
  have a: "uniquePlayers (aggregate exampleEnv [firstBet]) = {''A''}"
    and b: "uniquePlayers (aggregate exampleEnv [firstBet, replayedBet]) = {''A'', ''B''}"
    by (auto simp: firstBet_def replayedBet_def example_defs model_defs)
  have neq: "aggregate exampleEnv [firstBet, replayedBet] \<noteq>
       (aggregate exampleEnv [firstBet])
         \<lparr>duplicateBets := duplicateBets (aggregate exampleEnv [firstBet]) + 1\<rparr>"
  proof
    assume "aggregate exampleEnv [firstBet, replayedBet] =
       (aggregate exampleEnv [firstBet])
         \<lparr>duplicateBets := duplicateBets (aggregate exampleEnv [firstBet]) + 1\<rparr>"
    then have "uniquePlayers (aggregate exampleEnv [firstBet, replayedBet]) =
       uniquePlayers ((aggregate exampleEnv [firstBet])
         \<lparr>duplicateBets := duplicateBets (aggregate exampleEnv [firstBet]) + 1\<rparr>)"
      by simp
    then show False by (simp add: a b)
  qed
  have rest: "dupBet (aggregate exampleEnv [firstBet]) replayedBet"
    "uniqueGames (aggregate exampleEnv [firstBet]) = {''g1''}"
    "uniqueGames (aggregate exampleEnv [firstBet, replayedBet]) = {''g1'', ''g2''}"
    "maxTime (aggregate exampleEnv [firstBet]) = 1000"
    "maxTime (aggregate exampleEnv [firstBet, replayedBet]) = 5000"
    "playerBalances (aggregate exampleEnv [firstBet]) ''B'' = []"
    "playerBalances (aggregate exampleEnv [firstBet, replayedBet]) ''B'' = [400]"
    by (auto simp: firstBet_def replayedBet_def example_defs model_defs)
  show ?thesis using a b neq rest by simp
qed

section \<open>Finalized records\<close>

lemma finalizePlayer_kept:
  "PlayerStat.PlayerID (finalizePlayer E p) = PlayerStat.PlayerID p"
  "PlayerStat.TotalBetAmount (finalizePlayer E p) = PlayerStat.TotalBetAmount p"
  "PlayerStat.TotalWinAmount (finalizePlayer E p) = PlayerStat.TotalWinAmount p"
  "PlayerStat.TotalBets (finalizePlayer E p) = PlayerStat.TotalBets p"
  "PlayerStat.TotalWins (finalizePlayer E p) = PlayerStat.TotalWins p"
  "LastBalance (finalizePlayer E p) = LastBalance p"
  by (simp_all add: finalizePlayer_def Let_def)

lemma finalizePlayer_derived:
  "PlayerStat.NetResult (finalizePlayer E p) =
     PlayerStat.TotalWinAmount p - PlayerStat.TotalBetAmount p"
  "PlayerStat.RTP (finalizePlayer E p) =
     (if 0 <s PlayerStat.TotalBetAmount p
      then rtpPercent E (PlayerStat.TotalWinAmount p) (PlayerStat.TotalBetAmount p)
      else PlayerStat.RTP p)"
  by (simp_all add: finalizePlayer_def Let_def)

lemma finalizePlayer_tops:
  "TopBets (finalizePlayer E p) =
     take 5 (sort_Slice E (TopBets p) (\<lambda>a b. TopBet.Amount b <s TopBet.Amount a))"
  "TopWins (finalizePlayer E p) =
     take 5 (sort_Slice E (TopWins p) (\<lambda>a b. TopWin.Amount b <s TopWin.Amount a))"
  by (simp_all add: finalizePlayer_def Let_def)

lemma finalizeGame_kept:
  "GameStat.GameID (finalizeGame E xs k g) = GameStat.GameID g"
  "GameStat.TotalBetAmount (finalizeGame E xs k g) = GameStat.TotalBetAmount g"
  "GameStat.TotalWinAmount (finalizeGame E xs k g) = GameStat.TotalWinAmount g"
  "GameStat.TotalBets (finalizeGame E xs k g) = GameStat.TotalBets g"
  "GameStat.TotalWins (finalizeGame E xs k g) = GameStat.TotalWins g"
  by (simp_all add: finalizeGame_def Let_def)

lemma finalizeGame_derived:
  "GameStat.RTP (finalizeGame E xs k g) =
     (if 0 <s GameStat.TotalBetAmount g
      then rtpPercent E (GameStat.TotalWinAmount g) (GameStat.TotalBetAmount g)
      else GameStat.RTP g)"
  "Players (finalizeGame E xs k g) = int (card (playersInGame k xs {}))"
  by (simp_all add: finalizeGame_def Let_def)

lemma report_player_cases:
  assumes "map_of (PlayerStats (generateReport E xs)) k = Some p"
  shows "playerEvents k xs \<noteq> []"
    and "p = finalizePlayer E (fold (playerApply E) (playerEvents k xs) zeroPlayerStat)"
  using assms by (auto simp: report_players aggregate_player split: if_splits)

lemma report_game_cases:
  assumes "map_of (GameStats (generateReport E xs)) k = Some g"
  shows "gameEvents k xs \<noteq> []"
    and "g = finalizeGame E xs k (fold gameApply (gameEvents k xs) zeroGameStat)"
  using assms by (auto simp: report_games aggregate_game split: if_splits)

lemma outOfOrder_events: "playerEvents ''A'' outOfOrderStream = outOfOrderStream"
  by (simp add: playerEvents_def outOfOrderStream_def example_defs)

lemma scenario_events:
  "playerEvents ''A'' scenarioStream =
     [betEvent ''A'' ''g1'' ''r1'' 100 ''b1'' 900 1000,
      winEvent ''A'' ''g1'' ''r1'' 50 ''w1'' 950 1002]"
  "gameEvents ''g1'' scenarioStream =
     [betEvent ''A'' ''g1'' ''r1'' 100 ''b1'' 900 1000,
      winEvent ''A'' ''g1'' ''r1'' 50 ''w1'' 950 1002]"
  by (simp_all add: playerEvents_def gameEvents_def scenarioStream_def example_defs)

lemma winOnly_events:
  "playerEvents ''W'' winOnlyStream = winOnlyStream"
  "gameEvents ''g9'' winOnlyStream = winOnlyStream"
  by (simp_all add: playerEvents_def gameEvents_def winOnlyStream_def example_defs)

lemma report_player_example:
  "playerEvents k xs \<noteq> [] \<Longrightarrow>
     map_of (PlayerStats (generateReport E xs)) k =
       Some (finalizePlayer E (fold (playerApply E) (playerEvents k xs) zeroPlayerStat))"
  by (simp add: report_players aggregate_player)

lemma report_game_example:
  "gameEvents k xs \<noteq> [] \<Longrightarrow>
     map_of (GameStats (generateReport E xs)) k =
       Some (finalizeGame E xs k (fold gameApply (gameEvents k xs) zeroGameStat))"
  by (simp add: report_games aggregate_game)

section \<open>Last balance\<close>

text \<open>
  Claim C9, as the code has it.  For every player record of the report, the last balance is
  the balance carried by the last entry, in stream order, among the accepted bets and wins
  of that player, which are the entries in whose iteration the loop writes the record
  (lines 315 and 361).  Timestamps play no part, and neither do the entries of the player
  that are not counted.
\<close>

theorem C9_last_balance:
  assumes "map_of (PlayerStats (generateReport E xs)) k = Some p"
  shows "playerEvents k xs \<noteq> [] \<and> LastBalance p = Balance (last (playerEvents k xs))"
  using report_player_cases [OF assms]
  by (simp add: finalizePlayer_kept fold_player_LastBalance)

theorem C9_last_balance_witness:
  "map_of (PlayerStats (generateReport exampleEnv outOfOrderStream)) ''A'' \<noteq> None
   \<and> LastBalance (getPlayer (PlayerStats (generateReport exampleEnv outOfOrderStream)) ''A'') = 950
   \<and> Balance (last outOfOrderStream) = 950
   \<and> Timestamp (last outOfOrderStream) < Timestamp (hd outOfOrderStream)"
proof -
  have ne: "playerEvents ''A'' outOfOrderStream \<noteq> []"
    unfolding outOfOrder_events by (simp add: outOfOrderStream_def)
  note ex = report_player_example [OF ne, of exampleEnv]
  show ?thesis
    using C9_last_balance [OF ex] ex
    by (simp add: getPlayer_def outOfOrder_events) (simp add: outOfOrderStream_def example_defs)
qed

text \<open>
  Claim C9 as stated fails when the last entries of a player are not counted.  All four
  entries below are of player \<open>A\<close> and the loop records the four balances in the balance
  history of \<open>A\<close>, yet the last balance of the record is that of the first entry: the
  second entry is a duplicate, the third has no stake and the fourth is of another kind.
\<close>

theorem C9_last_balance_counterexample:
  "map PlayerID idleStream = [''A'', ''A'', ''A'', ''A'']
   \<and> map Balance idleStream = [900, 850, 700, 500]
   \<and> playerBalances (aggregate exampleEnv idleStream) ''A'' = [900, 850, 700, 500]
   \<and> map_of (PlayerStats (generateReport exampleEnv idleStream)) ''A'' \<noteq> None
   \<and> LastBalance (getPlayer (PlayerStats (generateReport exampleEnv idleStream)) ''A'') = 900
   \<and> LastBalance (getPlayer (PlayerStats (generateReport exampleEnv idleStream)) ''A'') \<noteq>
       Balance (last idleStream)"
proof -
  have ev: "playerEvents ''A'' idleStream = [betEvent ''A'' ''g1'' ''r1'' 100 ''b1'' 900 1000]"
    by (simp add: playerEvents_def idleStream_def example_defs otherEvent_def)
  then have ne: "playerEvents ''A'' idleStream \<noteq> []" by simp
  note ex = report_player_example [OF ne, of exampleEnv, unfolded ev]
  have last: "LastBalance (getPlayer (PlayerStats (generateReport exampleEnv idleStream)) ''A'') = 900"
    unfolding getPlayer_def ex option.case finalizePlayer_kept
    by (simp add: playerApply_def playerBet_def betEvent_def isBet_def word_sless_alt)
  have hist: "playerBalances (aggregate exampleEnv idleStream) ''A'' = [900, 850, 700, 500]"
    by (simp add: aggregate_def idleStream_def step_observed initState_def betEvent_def
        otherEvent_def)
  show ?thesis
    using last hist ex by (simp add: idleStream_def betEvent_def otherEvent_def)
qed

section \<open>Identifier fields of the records\<close>

lemma playerEvents_bets:
  "(\<exists>d\<in>set (playerEvents k xs). isBet d) \<longleftrightarrow> k \<in> PlayerID ` set (acceptedBets xs)"
  by (auto simp: playerEvents_def acceptedBets_def)

lemma gameEvents_bets:
  "(\<exists>d\<in>set (gameEvents k xs). isBet d) \<longleftrightarrow> k \<in> GameID ` set (acceptedBets xs)"
  by (auto simp: gameEvents_def acceptedBets_def)

lemma aggregate_player_id:
  assumes "map_of (playerStats (aggregate E xs)) k = Some p"
  shows "PlayerStat.PlayerID p = (if k \<in> PlayerID ` set (acceptedBets xs) then k else '''')"
proof -
  have p: "p = fold (playerApply E) (playerEvents k xs) zeroPlayerStat"
    using assms by (auto simp: aggregate_player split: if_splits)
  have "\<forall>d\<in>set (playerEvents k xs). PlayerID d = k"
    by (simp add: playerEvents_def)
  from fold_player_PlayerID [OF this, of E zeroPlayerStat] show ?thesis
    unfolding p by (simp add: playerEvents_bets zeroPlayerStat_def)
qed

lemma aggregate_game_id:
  assumes "map_of (gameStats (aggregate E xs)) k = Some g"
  shows "GameStat.GameID g = (if k \<in> GameID ` set (acceptedBets xs) then k else '''')"
proof -
  have g: "g = fold gameApply (gameEvents k xs) zeroGameStat"
    using assms by (auto simp: aggregate_game split: if_splits)
  have "\<forall>d\<in>set (gameEvents k xs). GameID d = k"
    by (simp add: gameEvents_def)
  from fold_game_GameID [OF this, of zeroGameStat] show ?thesis
    unfolding g by (simp add: gameEvents_bets zeroGameStat_def)
qed

text \<open>
  Claim C10.  In the state reached after any stream, and in the report made from it, the
  record stored under a key \<open>k\<close> of the player map carries \<open>k\<close> in its \<open>PlayerID\<close> field
  if some accepted bet is of player \<open>k\<close>, and the empty string otherwise, that is when every
  entry counted for \<open>k\<close> is a win.  The same holds for the \<open>GameID\<close> field of the records
  of the game map.
\<close>

theorem C10_identifier_fields:
  "(\<forall>p. map_of (playerStats (aggregate E xs)) k = Some p \<longrightarrow>
      PlayerStat.PlayerID p = (if k \<in> PlayerID ` set (acceptedBets xs) then k else ''''))
   \<and> (\<forall>p. map_of (PlayerStats (generateReport E xs)) k = Some p \<longrightarrow>
      PlayerStat.PlayerID p = (if k \<in> PlayerID ` set (acceptedBets xs) then k else ''''))
   \<and> (\<forall>g. map_of (gameStats (aggregate E xs)) k = Some g \<longrightarrow>
      GameStat.GameID g = (if k \<in> GameID ` set (acceptedBets xs) then k else ''''))
   \<and> (\<forall>g. map_of (GameStats (generateReport E xs)) k = Some g \<longrightarrow>
      GameStat.GameID g = (if k \<in> GameID ` set (acceptedBets xs) then k else ''''))"
proof -
  have a: "\<forall>p. map_of (PlayerStats (generateReport E xs)) k = Some p \<longrightarrow>
      PlayerStat.PlayerID p = (if k \<in> PlayerID ` set (acceptedBets xs) then k else '''')"
    using aggregate_player_id [of E xs k]
    by (auto simp: report_players finalizePlayer_kept)
  have b: "\<forall>g. map_of (GameStats (generateReport E xs)) k = Some g \<longrightarrow>
      GameStat.GameID g = (if k \<in> GameID ` set (acceptedBets xs) then k else '''')"
    using aggregate_game_id [of E xs k]
    by (auto simp: report_games finalizeGame_kept)
  show ?thesis
    using a b aggregate_player_id [of E xs k] aggregate_game_id [of E xs k] by blast
qed

theorem C10_identifier_fields_witness:
  "map_of (PlayerStats (generateReport exampleEnv winOnlyStream)) ''W'' \<noteq> None
   \<and> PlayerStat.PlayerID (getPlayer (PlayerStats (generateReport exampleEnv winOnlyStream)) ''W'')
       = ''''
   \<and> map_of (GameStats (generateReport exampleEnv winOnlyStream)) ''g9'' \<noteq> None
   \<and> GameStat.GameID (getGame (GameStats (generateReport exampleEnv winOnlyStream)) ''g9'') = ''''
   \<and> acceptedBets winOnlyStream = []"
proof -
  have ne: "playerEvents ''W'' winOnlyStream \<noteq> []" "gameEvents ''g9'' winOnlyStream \<noteq> []"
    unfolding winOnly_events by (simp_all add: winOnlyStream_def)
  note exP = report_player_example [OF ne(1), of exampleEnv]
  note exG = report_game_example [OF ne(2), of exampleEnv]
  have nb: "acceptedBets winOnlyStream = []"
    by (simp add: acceptedBets_def winOnlyStream_def example_defs)
  show ?thesis
    using C10_identifier_fields [of exampleEnv winOnlyStream "''W''"]
      C10_identifier_fields [of exampleEnv winOnlyStream "''g9''"] exP exG nb
    by (simp add: getPlayer_def getGame_def)
qed

section \<open>Return to player\<close>

lemma report_summary_rtp:
  "Summary.RTP (makeSummary E s) =
     (if 0 <s totalBetAmount s then rtpPercent E (totalWinAmount s) (totalBetAmount s) else 0)"
  by (simp add: makeSummary_def Let_def)

text \<open>
  Claim C4.  In the summary, in every player record and in every game record of the report,
  the RTP is 0 unless the total bet amount of that record is positive, and then it is the
  \<open>float64\<close> result of \<open>float64(totalWinAmount) / float64(totalBetAmount) * 100\<close>: the two
  integer totals are converted, divided and the quotient multiplied by 100, each step
  rounded by \<open>f64\<close>.  In particular the RTP is 0 whenever the total bet amount is 0.
\<close>

theorem C4_rtp_convention:
  "Summary.RTP (Summary (generateReport E xs)) =
     (if 0 <s Summary.TotalBetAmount (Summary (generateReport E xs))
      then f64 E (f64 E (f64 E (real_of_int (sint (Summary.TotalWinAmount
                                                    (Summary (generateReport E xs))))) /
                         f64 E (real_of_int (sint (Summary.TotalBetAmount
                                                    (Summary (generateReport E xs)))))) * 100)
      else 0)
   \<and> (\<forall>k p. map_of (PlayerStats (generateReport E xs)) k = Some p \<longrightarrow>
        PlayerStat.RTP p =
          (if 0 <s PlayerStat.TotalBetAmount p
           then f64 E (f64 E (f64 E (real_of_int (sint (PlayerStat.TotalWinAmount p))) /
                              f64 E (real_of_int (sint (PlayerStat.TotalBetAmount p)))) * 100)
           else 0))
   \<and> (\<forall>k g. map_of (GameStats (generateReport E xs)) k = Some g \<longrightarrow>
        GameStat.RTP g =
          (if 0 <s GameStat.TotalBetAmount g
           then f64 E (f64 E (f64 E (real_of_int (sint (GameStat.TotalWinAmount g))) /
                              f64 E (real_of_int (sint (GameStat.TotalBetAmount g)))) * 100)
           else 0))"
proof -
  have s: "Summary.RTP (Summary (generateReport E xs)) =
     (if 0 <s Summary.TotalBetAmount (Summary (generateReport E xs))
      then rtpPercent E (Summary.TotalWinAmount (Summary (generateReport E xs)))
             (Summary.TotalBetAmount (Summary (generateReport E xs)))
      else 0)"
    by (simp add: report_summary report_summary_rtp summary_totals)
  have p: "PlayerStat.RTP p =
          (if 0 <s PlayerStat.TotalBetAmount p
           then rtpPercent E (PlayerStat.TotalWinAmount p) (PlayerStat.TotalBetAmount p)
           else 0)"
    if "map_of (PlayerStats (generateReport E xs)) k = Some p" for k p
    unfolding report_player_cases(2) [OF that]
    by (simp add: finalizePlayer_derived finalizePlayer_kept fold_player_fields
        zeroPlayerStat_def)
  have g: "GameStat.RTP g =
          (if 0 <s GameStat.TotalBetAmount g
           then rtpPercent E (GameStat.TotalWinAmount g) (GameStat.TotalBetAmount g)
           else 0)"
    if "map_of (GameStats (generateReport E xs)) k = Some g" for k g
    unfolding report_game_cases(2) [OF that]
    by (simp add: finalizeGame_derived finalizeGame_kept fold_game_fields zeroGameStat_def)
  show ?thesis
    using s p g unfolding rtpPercent_def by blast
qed

theorem C4_rtp_convention_witness:
  "map_of (PlayerStats (generateReport exampleEnv scenarioStream)) ''A'' \<noteq> None
   \<and> PlayerStat.RTP (getPlayer (PlayerStats (generateReport exampleEnv scenarioStream)) ''A'') = 50
   \<and> map_of (GameStats (generateReport exampleEnv scenarioStream)) ''g1'' \<noteq> None
   \<and> GameStat.RTP (getGame (GameStats (generateReport exampleEnv scenarioStream)) ''g1'') = 50
   \<and> map_of (PlayerStats (generateReport exampleEnv winOnlyStream)) ''W'' \<noteq> None
   \<and> PlayerStat.TotalBetAmount
       (getPlayer (PlayerStats (generateReport exampleEnv winOnlyStream)) ''W'') = 0
   \<and> PlayerStat.RTP (getPlayer (PlayerStats (generateReport exampleEnv winOnlyStream)) ''W'') = 0"
proof -
  have ne: "playerEvents ''A'' scenarioStream \<noteq> []" "gameEvents ''g1'' scenarioStream \<noteq> []"
    "playerEvents ''W'' winOnlyStream \<noteq> []"
    unfolding scenario_events winOnly_events by (simp_all add: winOnlyStream_def)
  note exA = report_player_example [OF ne(1), of exampleEnv]
  note exG = report_game_example [OF ne(2), of exampleEnv]
  note exW = report_player_example [OF ne(3), of exampleEnv]
  have amounts:
    "PlayerStat.TotalBetAmount (getPlayer (PlayerStats (generateReport exampleEnv scenarioStream)) ''A'') = 100"
    "PlayerStat.TotalWinAmount (getPlayer (PlayerStats (generateReport exampleEnv scenarioStream)) ''A'') = 50"
    "GameStat.TotalBetAmount (getGame (GameStats (generateReport exampleEnv scenarioStream)) ''g1'') = 100"
    "GameStat.TotalWinAmount (getGame (GameStats (generateReport exampleEnv scenarioStream)) ''g1'') = 50"
    "PlayerStat.TotalBetAmount (getPlayer (PlayerStats (generateReport exampleEnv winOnlyStream)) ''W'') = 0"
    unfolding getPlayer_def getGame_def exA exG exW option.case scenario_events winOnly_events
    by (simp_all add: finalizePlayer_kept finalizeGame_kept fold_player_fields fold_game_fields
        winOnlyStream_def zeroPlayerStat_def zeroGameStat_def betEvent_def winEvent_def
        isBet_def isWin_def word_sless_alt playerApply_def playerBet_def playerWin_def
        gameApply_def gameBet_def gameWin_def)
  show ?thesis
    using C4_rtp_convention [of exampleEnv scenarioStream]
      C4_rtp_convention [of exampleEnv winOnlyStream] exA exG exW amounts
    by (simp add: getPlayer_def getGame_def exampleEnv_def word_sless_alt)
qed

section \<open>Players of a game\<close>

lemma image_filter_set: "f ` {d \<in> set xs. P d} = set (map f (filter P xs))"
  by auto

lemma playersInGame_eq:
  "playersInGame k xs acc = acc \<union> PlayerID ` {d \<in> set xs. GameID d = k}"
  by (induction xs arbitrary: acc) auto

text \<open>
  Claim C7, as the code has it.  For every game record of the report, the player count is
  the number of distinct player identifiers among all the entries of the stream that carry
  the identifier of the game, whatever their message and amounts and whether or not they
  were counted; a player with several entries on the game is counted once.  The count is
  computed at finalization from the whole stream.
\<close>

theorem C7_players_of_game:
  assumes "map_of (GameStats (generateReport E xs)) k = Some g"
  shows "Players g = int (card (PlayerID ` {d \<in> set xs. GameID d = k}))"
  unfolding report_game_cases(2) [OF assms]
  by (simp add: finalizeGame_derived playersInGame_eq)

theorem C7_players_of_game_witness:
  "map_of (GameStats (generateReport exampleEnv scenarioStream)) ''g1'' \<noteq> None
   \<and> Players (getGame (GameStats (generateReport exampleEnv scenarioStream)) ''g1'') = 1"
proof -
  have ne: "gameEvents ''g1'' scenarioStream \<noteq> []"
    unfolding scenario_events by simp
  note ex = report_game_example [OF ne, of exampleEnv]
  have "PlayerID ` {d \<in> set scenarioStream. GameID d = ''g1''} = {''A''}"
    unfolding image_filter_set by (simp add: scenarioStream_def betEvent_def winEvent_def)
  then show ?thesis
    using C7_players_of_game [OF ex] ex by (simp add: getGame_def)
qed

text \<open>
  Claim C7 as stated fails: on game \<open>g1\<close> below only player \<open>A\<close> has an entry of kind bet
  or win, the entry of player \<open>B\<close> has another message and no amounts, and the record of
  the game counts two players.
\<close>

theorem C7_players_of_game_counterexample:
  "transactingPlayers ''g1'' lobbyStream = {''A''}
   \<and> map_of (GameStats (generateReport exampleEnv lobbyStream)) ''g1'' \<noteq> None
   \<and> Players (getGame (GameStats (generateReport exampleEnv lobbyStream)) ''g1'') = 2
   \<and> Players (getGame (GameStats (generateReport exampleEnv lobbyStream)) ''g1'') \<noteq>
       int (card (transactingPlayers ''g1'' lobbyStream))"
proof -
  have t: "transactingPlayers ''g1'' lobbyStream = {''A''}"
    unfolding transactingPlayers_def image_filter_set
    by (simp add: lobbyStream_def betEvent_def otherEvent_def)
  have ev: "gameEvents ''g1'' lobbyStream = [betEvent ''A'' ''g1'' ''r1'' 100 ''b1'' 900 1000]"
    by (simp add: gameEvents_def lobbyStream_def example_defs otherEvent_def)
  then have ne: "gameEvents ''g1'' lobbyStream \<noteq> []" by simp
  note ex = report_game_example [OF ne, of exampleEnv]
  have all: "PlayerID ` {d \<in> set lobbyStream. GameID d = ''g1''} = {''A'', ''B''}"
    unfolding image_filter_set by (simp add: lobbyStream_def betEvent_def otherEvent_def)
  have "Players (getGame (GameStats (generateReport exampleEnv lobbyStream)) ''g1'') = 2"
    unfolding getGame_def ex option.case
    by (simp add: finalizeGame_derived playersInGame_eq all)
  with t ex show ?thesis by simp
qed

section \<open>Time span\<close>

lemma aggregate_maxTime: "maxTime (aggregate E xs) = Max (insert 0 (Timestamp ` set xs))"
proof (induction xs rule: rev_induct)
  case Nil
  show ?case by (simp add: aggregate_def initState_def)
next
  case (snoc d xs)
  have eq: "insert 0 (Timestamp ` set (xs @ [d])) =
      insert (Timestamp d) (insert 0 (Timestamp ` set xs))"
    by auto
  have "maxTime (aggregate E (xs @ [d])) = max (Timestamp d) (maxTime (aggregate E xs))"
    by (simp add: aggregate_snoc step_observed max_def)
  also have "\<dots> = max (Timestamp d) (Max (insert 0 (Timestamp ` set xs)))"
    by (simp only: snoc.IH)
  also have "\<dots> = Max (insert (Timestamp d) (insert 0 (Timestamp ` set xs)))"
    by (rule Max_insert [symmetric]) simp_all
  finally show ?case by (simp only: eq)
qed

lemma aggregate_minTime_mem:
  "xs \<noteq> [] \<Longrightarrow> minTime (aggregate E xs) \<in> Timestamp ` set xs"
proof (induction xs rule: rev_induct)
  case Nil
  then show ?case by simp
next
  case (snoc d xs)
  show ?case
  proof (cases "xs = []")
    case True
    then show ?thesis
      by (simp add: aggregate_snoc step_observed aggregate_def initState_def)
  next
    case False
    with snoc.IH show ?thesis
      by (auto simp: aggregate_snoc step_observed)
  qed
qed

lemma aggregate_minTime_Nil: "minTime (aggregate E []) = - 1"
  by (simp add: aggregate_def initState_def)

lemma aggregate_minTime_nonneg:
  "xs \<noteq> [] \<Longrightarrow> \<forall>d\<in>set xs. 0 \<le> Timestamp d \<Longrightarrow>
     minTime (aggregate E xs) = Min (Timestamp ` set xs)"
proof (induction xs rule: rev_induct)
  case Nil
  then show ?case by simp
next
  case (snoc d xs)
  show ?case
  proof (cases "xs = []")
    case True
    then show ?thesis
      by (simp add: aggregate_snoc step_observed aggregate_def initState_def)
  next
    case False
    then have IH: "minTime (aggregate E xs) = Min (Timestamp ` set xs)"
      using snoc by simp
    have fin: "finite (Timestamp ` set xs)" and ne: "Timestamp ` set xs \<noteq> {}"
      using False by simp_all
    have nonneg: "0 \<le> Min (Timestamp ` set xs)"
      using snoc.prems(2) fin ne by (simp add: Min_ge_iff)
    have "Min (Timestamp ` set (xs @ [d])) = min (Timestamp d) (Min (Timestamp ` set xs))"
      using Min_insert [OF fin ne, of "Timestamp d"] by simp
    then show ?thesis
      using nonneg by (simp add: aggregate_snoc step_observed IH min_def)
  qed
qed

lemma timeSpan_nonempty:
  "TimeSpan (makeSummary E s) \<noteq> '''' \<longleftrightarrow> 0 \<le> minTime s \<and> minTime s < maxTime s"
  by (simp add: makeSummary_def Let_def)

lemma Max_insert_zero_nonneg:
  assumes "xs \<noteq> []" and "\<forall>d\<in>set xs. 0 \<le> Timestamp d"
  shows "Max (insert 0 (Timestamp ` set xs)) = Max (Timestamp ` set xs)"
proof -
  have fin: "finite (Timestamp ` set xs)" and ne: "Timestamp ` set xs \<noteq> {}"
    using assms(1) by simp_all
  have "0 \<le> Max (Timestamp ` set xs)"
    using assms Max_ge_iff [OF fin ne, of 0] by (metis hd_in_set imageI)
  then show ?thesis
    using Max_insert [OF fin ne, of 0] by (simp add: max_def)
qed

lemma timeSpan_only_if:
  assumes "TimeSpan (Summary (generateReport E xs)) \<noteq> ''''"
  shows "xs \<noteq> [] \<and> Min (Timestamp ` set xs) < Max (Timestamp ` set xs)"
proof -
  from assms have lo: "0 \<le> minTime (aggregate E xs)"
    and lt: "minTime (aggregate E xs) < maxTime (aggregate E xs)"
    by (simp_all add: report_summary timeSpan_nonempty)
  have ne: "xs \<noteq> []"
    using lo aggregate_minTime_Nil [of E] by auto
  have fin: "finite (Timestamp ` set xs)" and ne': "Timestamp ` set xs \<noteq> {}"
    using ne by simp_all
  have "Min (Timestamp ` set xs) \<le> minTime (aggregate E xs)"
    using aggregate_minTime_mem [OF ne, of E] fin by (simp add: Min_le)
  moreover have "maxTime (aggregate E xs) = Max (Timestamp ` set xs)"
  proof -
    have "0 < Max (insert 0 (Timestamp ` set xs))"
      using lo lt by (simp add: aggregate_maxTime)
    then show ?thesis
      using Max_insert [OF fin ne', of 0] by (simp add: aggregate_maxTime max_def split: if_splits)
  qed
  ultimately show ?thesis using ne lt by simp
qed

lemma timeSpan_nonneg_iff:
  assumes "\<forall>d\<in>set xs. 0 \<le> Timestamp d"
  shows "TimeSpan (Summary (generateReport E xs)) \<noteq> '''' \<longleftrightarrow>
     xs \<noteq> [] \<and> Min (Timestamp ` set xs) < Max (Timestamp ` set xs)"
proof
  assume "TimeSpan (Summary (generateReport E xs)) \<noteq> ''''"
  then show "xs \<noteq> [] \<and> Min (Timestamp ` set xs) < Max (Timestamp ` set xs)"
    by (rule timeSpan_only_if)
next
  assume r: "xs \<noteq> [] \<and> Min (Timestamp ` set xs) < Max (Timestamp ` set xs)"
  then have ne: "xs \<noteq> []" by simp
  have fin: "finite (Timestamp ` set xs)" and ne': "Timestamp ` set xs \<noteq> {}"
    using ne by simp_all
  have "0 \<le> Min (Timestamp ` set xs)"
    using assms fin ne' by (simp add: Min_ge_iff)
  then show "TimeSpan (Summary (generateReport E xs)) \<noteq> ''''"
    using r
    by (simp add: report_summary timeSpan_nonempty aggregate_maxTime
        aggregate_minTime_nonneg [OF ne assms] Max_insert_zero_nonneg [OF ne assms])
qed

text \<open>
  Claim C8, as the code has it.  If the time span of the summary is not empty, then the
  stream has an entry and its greatest timestamp is strictly greater than its least one.
  For a stream whose timestamps are all non-negative the converse holds as well: the time
  span is not empty if and only if the stream has an entry and its greatest timestamp is
  strictly greater than its least one.  The empty stream and every stream of a single
  entry have an empty time span.
\<close>

theorem C8_time_span:
  "(TimeSpan (Summary (generateReport E xs)) \<noteq> '''' \<longrightarrow>
      xs \<noteq> [] \<and> Min (Timestamp ` set xs) < Max (Timestamp ` set xs))
   \<and> ((\<forall>d\<in>set xs. 0 \<le> Timestamp d) \<longrightarrow>
      (TimeSpan (Summary (generateReport E xs)) \<noteq> '''' \<longleftrightarrow>
         xs \<noteq> [] \<and> Min (Timestamp ` set xs) < Max (Timestamp ` set xs)))
   \<and> TimeSpan (Summary (generateReport E [])) = ''''
   \<and> TimeSpan (Summary (generateReport E [d])) = ''''"
proof -
  have single: "TimeSpan (Summary (generateReport E [d])) = ''''"
    using timeSpan_only_if [of E "[d]"] by auto
  have empty: "TimeSpan (Summary (generateReport E [])) = ''''"
    using timeSpan_only_if [of E "[]"] by auto
  show ?thesis
    using timeSpan_only_if [of E xs] timeSpan_nonneg_iff [of xs E] single empty by blast
qed

theorem C8_time_span_witness:
  "scenarioStream \<noteq> []
   \<and> Min (Timestamp ` set scenarioStream) = 1000
   \<and> Max (Timestamp ` set scenarioStream) = 1002
   \<and> TimeSpan (Summary (generateReport exampleEnv scenarioStream)) \<noteq> ''''"
proof -
  have a: "\<forall>d\<in>set scenarioStream. 0 \<le> Timestamp d"
    by (simp add: scenarioStream_def betEvent_def winEvent_def)
  have b: "Min (Timestamp ` set scenarioStream) = 1000"
    "Max (Timestamp ` set scenarioStream) = 1002" "scenarioStream \<noteq> []"
    by (simp_all add: scenarioStream_def betEvent_def winEvent_def)
  show ?thesis
    using C8_time_span [of exampleEnv scenarioStream] a b by simp
qed

text \<open>
  Claim C8 as stated fails: the stream below has two entries, the second with a strictly
  greater timestamp than the first, and its time span is empty.  Both timestamps are
  negative, and a negative lower bound is how the loop marks that no entry has been seen.
\<close>

theorem C8_time_span_counterexample:
  "preEpochStream \<noteq> []
   \<and> Min (Timestamp ` set preEpochStream) = - 5
   \<and> Max (Timestamp ` set preEpochStream) = - 3
   \<and> Min (Timestamp ` set preEpochStream) < Max (Timestamp ` set preEpochStream)
   \<and> TimeSpan (Summary (generateReport exampleEnv preEpochStream)) = ''''"
proof -
  have "minTime (aggregate exampleEnv preEpochStream) = - 3"
    by (simp add: preEpochStream_def example_defs model_defs)
  then have "TimeSpan (Summary (generateReport exampleEnv preEpochStream)) = ''''"
    using timeSpan_nonempty [of exampleEnv "aggregate exampleEnv preEpochStream"]
    by (simp add: report_summary)
  then show ?thesis
    by (simp add: preEpochStream_def betEvent_def winEvent_def)
qed

section \<open>The fraud screen\<close>

lemma suspicious_filter:
  "filter (\<lambda>e. SuspiciousEvent.PlayerID e = k) (suspicious E k' p) =
     (if k' = k then suspicious E k p else [])"
  by (simp add: suspicious_def)

lemma suspicious_events_of_player:
  "distinct (map fst al) \<Longrightarrow>
     filter (\<lambda>e. SuspiciousEvent.PlayerID e = k)
       (concat (map (\<lambda>(k', p). suspicious E k' (f p)) al)) =
     (case map_of al k of None \<Rightarrow> [] | Some p \<Rightarrow> suspicious E k (f p))"
proof (induction al)
  case Nil
  show ?case by simp
next
  case (Cons a al)
  obtain k' p' where a: "a = (k', p')" by (cases a)
  from Cons.prems have d: "distinct (map fst al)" and nk: "k' \<notin> fst ` set al"
    by (simp_all add: a)
  show ?case
  proof (cases "k' = k")
    case True
    with nk have "map_of al k = None" by (simp add: map_of_eq_None_iff)
    with Cons.IH [OF d] True show ?thesis
      by (simp add: a suspicious_filter)
  next
    case False
    with Cons.IH [OF d] show ?thesis
      by (simp add: a suspicious_filter)
  qed
qed

lemma report_suspicious:
  "filter (\<lambda>e. SuspiciousEvent.PlayerID e = k) (SuspiciousEvents (generateReport E xs)) =
     (case map_of (PlayerStats (generateReport E xs)) k of
        None \<Rightarrow> [] | Some p \<Rightarrow> suspicious E k p)"
proof -
  have "filter (\<lambda>e. SuspiciousEvent.PlayerID e = k) (SuspiciousEvents (generateReport E xs)) =
     (case map_of (playerStats (aggregate E xs)) k of
        None \<Rightarrow> [] | Some p \<Rightarrow> suspicious E k (finalizePlayer E p))"
    using suspicious_events_of_player
      [OF aggregate_distinct(1), where k = k and E = E and f = "finalizePlayer E"]
    by (simp add: generateReport_def finalize_def)
  then show ?thesis
    by (simp add: report_players split: option.splits)
qed

lemma report_suspicious_origin:
  assumes "e \<in> set (SuspiciousEvents (generateReport E xs))"
  shows "Type e = ''High RTP'' \<and>
     map_of (PlayerStats (generateReport E xs)) (SuspiciousEvent.PlayerID e) \<noteq> None"
proof -
  from assms obtain k p where kp: "(k, p) \<in> set (playerStats (aggregate E xs))"
    and e: "e \<in> set (suspicious E k (finalizePlayer E p))"
    by (auto simp: generateReport_def finalize_def)
  from e have "Type e = ''High RTP''" and "SuspiciousEvent.PlayerID e = k"
    by (auto simp: suspicious_def split: if_splits)
  moreover from kp have "map_of (playerStats (aggregate E xs)) k \<noteq> None"
    by (metis map_of_eq_None_iff fst_conv imageI)
  ultimately show ?thesis
    by (simp add: report_players)
qed

lemma rtpPercent_two_to_one:
  assumes "f64 E 2000 = 2000" "f64 E 1000 = 1000" "f64 E 2 = 2" "f64 E 200 = 200"
  shows "rtpPercent E 2000 1000 = 200"
  using assms by (simp add: rtpPercent_def)

text \<open>
  Claim C6.  For every player record of the report, the suspicious events of that player
  are exactly one \<open>High RTP\<close> event if the record has more than 100 bets and an RTP above
  150, both strictly, and none otherwise; every suspicious event of the report is such an
  event of a player of the report.  A record with exactly 100 bets and an RTP of exactly
  150 yields no event.  A player whose record has 150 bets, a total bet amount of 1000 and
  a total win amount of 2000 has an RTP of 200 and exactly one event, provided 2000, 1000,
  2 and 200 are \<open>float64\<close> values, as they are.
\<close>

theorem C6_high_rtp_screen:
  "(\<forall>k p. map_of (PlayerStats (generateReport E xs)) k = Some p \<longrightarrow>
      filter (\<lambda>e. SuspiciousEvent.PlayerID e = k) (SuspiciousEvents (generateReport E xs)) =
        (if 100 < PlayerStat.TotalBets p \<and> 150 < PlayerStat.RTP p
         then [\<lparr>Type = ''High RTP'', Description = ''Player has suspiciously high RTP'',
                SuspiciousEvent.PlayerID = k, SuspiciousEvent.Timestamp = '''',
                Details = sprintfDetails E (PlayerStat.RTP p) (PlayerStat.TotalBets p)\<rparr>]
         else []))
   \<and> (\<forall>e\<in>set (SuspiciousEvents (generateReport E xs)).
        Type e = ''High RTP'' \<and>
        map_of (PlayerStats (generateReport E xs)) (SuspiciousEvent.PlayerID e) \<noteq> None)
   \<and> (\<forall>k p. PlayerStat.TotalBets p = 100 \<and> PlayerStat.RTP p = 150 \<longrightarrow> suspicious E k p = [])
   \<and> (\<forall>k p. map_of (PlayerStats (generateReport E xs)) k = Some p \<and>
        PlayerStat.TotalBets p = 150 \<and> PlayerStat.TotalBetAmount p = 1000 \<and>
        PlayerStat.TotalWinAmount p = 2000 \<and>
        f64 E 2000 = 2000 \<and> f64 E 1000 = 1000 \<and> f64 E 2 = 2 \<and> f64 E 200 = 200 \<longrightarrow>
        PlayerStat.RTP p = 200 \<and>
        length (filter (\<lambda>e. SuspiciousEvent.PlayerID e = k)
                  (SuspiciousEvents (generateReport E xs))) = 1)"
proof -
  have a: "filter (\<lambda>e. SuspiciousEvent.PlayerID e = k) (SuspiciousEvents (generateReport E xs)) =
        (if 100 < PlayerStat.TotalBets p \<and> 150 < PlayerStat.RTP p
         then [\<lparr>Type = ''High RTP'', Description = ''Player has suspiciously high RTP'',
                SuspiciousEvent.PlayerID = k, SuspiciousEvent.Timestamp = '''',
                Details = sprintfDetails E (PlayerStat.RTP p) (PlayerStat.TotalBets p)\<rparr>]
         else [])"
    if "map_of (PlayerStats (generateReport E xs)) k = Some p" for k p
    using that by (simp add: report_suspicious suspicious_def)
  have b: "\<forall>e\<in>set (SuspiciousEvents (generateReport E xs)).
        Type e = ''High RTP'' \<and>
        map_of (PlayerStats (generateReport E xs)) (SuspiciousEvent.PlayerID e) \<noteq> None"
    using report_suspicious_origin [of _ E xs] by blast
  have c: "suspicious E k p = []"
    if "PlayerStat.TotalBets p = 100 \<and> PlayerStat.RTP p = 150" for k p
    using that by (simp add: suspicious_def)
  have d: "PlayerStat.RTP p = 200 \<and>
        length (filter (\<lambda>e. SuspiciousEvent.PlayerID e = k)
                  (SuspiciousEvents (generateReport E xs))) = 1"
    if h: "map_of (PlayerStats (generateReport E xs)) k = Some p \<and>
        PlayerStat.TotalBets p = 150 \<and> PlayerStat.TotalBetAmount p = 1000 \<and>
        PlayerStat.TotalWinAmount p = 2000 \<and>
        f64 E 2000 = 2000 \<and> f64 E 1000 = 1000 \<and> f64 E 2 = 2 \<and> f64 E 200 = 200" for k p
  proof -
    from h have m: "map_of (PlayerStats (generateReport E xs)) k = Some p" by simp
    have "PlayerStat.RTP p =
        (if 0 <s PlayerStat.TotalBetAmount p
         then rtpPercent E (PlayerStat.TotalWinAmount p) (PlayerStat.TotalBetAmount p)
         else 0)"
      unfolding report_player_cases(2) [OF m]
      by (simp add: finalizePlayer_derived finalizePlayer_kept fold_player_fields
          zeroPlayerStat_def)
    with h have r: "PlayerStat.RTP p = 200"
      by (simp add: rtpPercent_two_to_one word_sless_alt)
    with h a [OF m] show ?thesis by simp
  qed
  show ?thesis
    using a b c d by blast
qed

lemma counted_no_ids:
  "\<forall>d\<in>set xs. (isBet d \<and> BetID d = '''') \<or> (isWin d \<and> WinID d = '''') \<Longrightarrow>
     counted bs ws xs = xs"
  by (induction xs arbitrary: bs ws) (auto dest: isBet_not_isWin)

lemma playerEvents_no_ids:
  assumes "\<forall>d\<in>set xs. (isBet d \<and> BetID d = '''') \<or> (isWin d \<and> WinID d = '''')"
    and "\<forall>d\<in>set xs. PlayerID d = k"
  shows "playerEvents k xs = xs"
  using assms(2) by (simp add: playerEvents_def counted_no_ids [OF assms(1)])

lemma highRoller_events: "playerEvents ''H'' highRollerStream = highRollerStream"
  by (rule playerEvents_no_ids) (auto simp: highRollerStream_def example_defs)

lemma boundary_events: "playerEvents ''L'' boundaryStream = boundaryStream"
  by (rule playerEvents_no_ids) (auto simp: boundaryStream_def example_defs)

lemma highRoller_record:
  "PlayerStat.TotalBets (fold (playerApply E) highRollerStream zeroPlayerStat) = 150"
  "PlayerStat.TotalBetAmount (fold (playerApply E) highRollerStream zeroPlayerStat) = 1000"
  "PlayerStat.TotalWinAmount (fold (playerApply E) highRollerStream zeroPlayerStat) = 2000"
  unfolding fold_player_fields
  by (simp_all add: highRollerStream_def zeroPlayerStat_def sum_list_replicate example_defs)

lemma boundary_record:
  "PlayerStat.TotalBets (fold (playerApply E) boundaryStream zeroPlayerStat) = 100"
  "PlayerStat.TotalBetAmount (fold (playerApply E) boundaryStream zeroPlayerStat) = 1000"
  "PlayerStat.TotalWinAmount (fold (playerApply E) boundaryStream zeroPlayerStat) = 1500"
  unfolding fold_player_fields
  by (simp_all add: boundaryStream_def zeroPlayerStat_def sum_list_replicate example_defs)

theorem C6_high_rtp_screen_witness:
  "map_of (PlayerStats (generateReport exampleEnv highRollerStream)) ''H'' \<noteq> None
   \<and> PlayerStat.TotalBets
       (getPlayer (PlayerStats (generateReport exampleEnv highRollerStream)) ''H'') = 150
   \<and> PlayerStat.RTP
       (getPlayer (PlayerStats (generateReport exampleEnv highRollerStream)) ''H'') = 200
   \<and> length (filter (\<lambda>e. SuspiciousEvent.PlayerID e = ''H'')
               (SuspiciousEvents (generateReport exampleEnv highRollerStream))) = 1
   \<and> map_of (PlayerStats (generateReport exampleEnv boundaryStream)) ''L'' \<noteq> None
   \<and> PlayerStat.TotalBets
       (getPlayer (PlayerStats (generateReport exampleEnv boundaryStream)) ''L'') = 100
   \<and> PlayerStat.RTP
       (getPlayer (PlayerStats (generateReport exampleEnv boundaryStream)) ''L'') = 150
   \<and> filter (\<lambda>e. SuspiciousEvent.PlayerID e = ''L'')
       (SuspiciousEvents (generateReport exampleEnv boundaryStream)) = []"
proof -
  have neH: "playerEvents ''H'' highRollerStream \<noteq> []"
    unfolding highRoller_events by (simp add: highRollerStream_def)
  have neL: "playerEvents ''L'' boundaryStream \<noteq> []"
    unfolding boundary_events by (simp add: boundaryStream_def)
  note exH = report_player_example [OF neH, of exampleEnv, unfolded highRoller_events]
  note exL = report_player_example [OF neL, of exampleEnv, unfolded boundary_events]
  have exact: "f64 exampleEnv 2000 = 2000" "f64 exampleEnv 1000 = 1000" "f64 exampleEnv 2 = 2"
    "f64 exampleEnv 200 = 200"
    by (simp_all add: exampleEnv_def)
  have recH:
    "PlayerStat.TotalBets (finalizePlayer exampleEnv
       (fold (playerApply exampleEnv) highRollerStream zeroPlayerStat)) = 150"
    "PlayerStat.TotalBetAmount (finalizePlayer exampleEnv
       (fold (playerApply exampleEnv) highRollerStream zeroPlayerStat)) = 1000"
    "PlayerStat.TotalWinAmount (finalizePlayer exampleEnv
       (fold (playerApply exampleEnv) highRollerStream zeroPlayerStat)) = 2000"
    by (simp_all add: finalizePlayer_kept highRoller_record)
  have recL:
    "PlayerStat.TotalBets (finalizePlayer exampleEnv
       (fold (playerApply exampleEnv) boundaryStream zeroPlayerStat)) = 100"
    "PlayerStat.RTP (finalizePlayer exampleEnv
       (fold (playerApply exampleEnv) boundaryStream zeroPlayerStat)) = 150"
    by (simp_all add: finalizePlayer_kept finalizePlayer_derived boundary_record rtpPercent_def
        word_sless_alt exampleEnv_def)
  show ?thesis
    using C6_high_rtp_screen [of exampleEnv highRollerStream]
      C6_high_rtp_screen [of exampleEnv boundaryStream] exH exL exact recH recL
    by (simp add: getPlayer_def)
qed

section \<open>Sorting and the top lists\<close>

text \<open>The insertion sort of the examples meets the contract.\<close>

lemma sinkLeft_mset: "mset (sinkLeft lessFn x ps) = add_mset x (mset ps)"
  by (induction ps) simp_all

lemma sinkLeft_set: "set (sinkLeft lessFn x ps) = insert x (set ps)"
  using sinkLeft_mset [of lessFn x ps] by (metis set_mset_add_mset_insert set_mset_mset)

lemma sinkLeft_sorted:
  fixes key :: "nat \<Rightarrow> int"
  shows "sorted_wrt (\<lambda>a b. key b \<le> key a) ps \<Longrightarrow>
     sorted_wrt (\<lambda>a b. key b \<le> key a) (sinkLeft (\<lambda>i j. key i < key j) x ps)"
  by (induction ps) (auto simp: sinkLeft_set)

lemma foldl_sinkLeft_mset:
  "mset (foldl (\<lambda>acc i. sinkLeft lessFn i acc) acc is) = mset acc + mset is"
  by (induction "is" arbitrary: acc) (simp_all add: sinkLeft_mset)

lemma foldl_sinkLeft_sorted:
  fixes key :: "nat \<Rightarrow> int"
  shows "sorted_wrt (\<lambda>a b. key b \<le> key a) acc \<Longrightarrow>
     sorted_wrt (\<lambda>a b. key b \<le> key a)
       (foldl (\<lambda>acc i. sinkLeft (\<lambda>i j. key i < key j) i acc) acc is)"
  by (induction "is" arbitrary: acc) (simp_all add: sinkLeft_sorted)

lemma sorted_map_rev:
  fixes key :: "nat \<Rightarrow> int"
  shows "sorted (map key (rev ps)) \<longleftrightarrow> sorted_wrt (\<lambda>a b. key b \<le> key a) ps"
  by (simp add: sorted_map sorted_wrt_rev)

lemma exampleEnv_contract: "sortSliceContract exampleEnv"
  unfolding sortSliceContract_def
proof (intro allI conjI)
  fix n and key :: "nat \<Rightarrow> int"
  show "mset (slicePerm exampleEnv n (\<lambda>i j. key i < key j)) = mset [0..<n]"
    by (simp add: exampleEnv_def insertionSort_def foldl_sinkLeft_mset)
  show "sorted (map key (slicePerm exampleEnv n (\<lambda>i j. key i < key j)))"
    using foldl_sinkLeft_sorted [of key "[]" "[0..<n]"]
    by (simp add: exampleEnv_def insertionSort_def sorted_map_rev)
qed

text \<open>The library's sort returns: every round works on a shorter range.\<close>

lemma skipLess_ge: "i \<le> skipLess lessFn p a i j"
  by (induction lessFn p a i j rule: skipLess.induct) (subst skipLess.simps, auto)

lemma skipNotLess_le: "skipNotLess lessFn p a i j \<le> j"
  by (induction j) auto

lemma skipNotLess_ge: "i \<le> j + 1 \<Longrightarrow> i \<le> skipNotLess lessFn p a i j + 1"
  by (induction j) auto

lemma skipNotLess_idle: "j < i \<Longrightarrow> skipNotLess lessFn p a i j = j"
  by (cases j) auto

lemma partition_loop_bounds:
  "a < i \<Longrightarrow> a \<le> j \<Longrightarrow>
     a \<le> snd (partition_loop lessFn p a i j) \<and> snd (partition_loop lessFn p a i j) \<le> j"
proof (induction lessFn p a i j rule: partition_loop.induct)
  case (1 lessFn p a i j)
  define i' where "i' = skipLess lessFn p a i j"
  define j' where "j' = skipNotLess lessFn p a i' j"
  have i': "i \<le> i'" by (simp add: i'_def skipLess_ge)
  have j': "j' \<le> j" by (simp add: j'_def skipNotLess_le)
  have low: "a \<le> j'"
  proof (cases "j < i'")
    case True
    then show ?thesis using 1(3) by (simp add: j'_def skipNotLess_idle)
  next
    case False
    then have "i' \<le> j' + 1" unfolding j'_def by (intro skipNotLess_ge) simp
    with i' 1(2) show ?thesis by simp
  qed
  show ?case
  proof (cases "j' < i'")
    case True
    then show ?thesis
      using low j' by (subst (1 2) partition_loop.simps) (simp add: Let_def i'_def [symmetric] j'_def [symmetric])
  next
    case False
    from False i' 1(2) have "a < i' + 1" "a \<le> j' - 1" by simp_all
    from 1(1) [OF i'_def j'_def False this]
    have "a \<le> snd (partition_loop lessFn (data_Swap p i' j') a (i' + 1) (j' - 1))"
      "snd (partition_loop lessFn (data_Swap p i' j') a (i' + 1) (j' - 1)) \<le> j' - 1"
      by simp_all
    with False j' show ?thesis
      by (subst (1 2) partition_loop.simps) (simp add: Let_def i'_def [symmetric] j'_def [symmetric])
  qed
qed

lemma partition_func_mid:
  assumes "a + 1 < b"
  shows "a \<le> fst (snd (partition_func lessFn p a b pivot))"
    and "fst (snd (partition_func lessFn p a b pivot)) < b"
proof -
  define q where "q = data_Swap p a pivot"
  define i where "i = skipLess lessFn q a (a + 1) (b - 1)"
  define j where "j = skipNotLess lessFn q a i (b - 1)"
  have i: "a + 1 \<le> i" by (simp add: i_def skipLess_ge)
  have j: "j \<le> b - 1" by (simp add: j_def skipNotLess_le)
  have low: "a \<le> j"
  proof (cases "b - 1 < i")
    case True
    then show ?thesis using assms by (simp add: j_def skipNotLess_idle)
  next
    case False
    then have "i \<le> j + 1" unfolding j_def by (intro skipNotLess_ge) simp
    with i show ?thesis by simp
  qed
  have pf: "partition_func lessFn p a b pivot =
      (if j < i then (data_Swap q j a, j, True)
       else case partition_loop lessFn (data_Swap q i j) a (i + 1) (j - 1) of
              (p, j) \<Rightarrow> (data_Swap p j a, j, False))"
    unfolding partition_func_def Let_def q_def i_def j_def ..
  have "a \<le> fst (snd (partition_func lessFn p a b pivot))
      \<and> fst (snd (partition_func lessFn p a b pivot)) < b"
  proof (cases "j < i")
    case True
    then show ?thesis
      unfolding pf using low j assms by simp
  next
    case False
    with i have "a < i + 1" "a \<le> j - 1" by simp_all
    from partition_loop_bounds [OF this, of lessFn "data_Swap q i j"] False j assms
    show ?thesis
      unfolding pf by (auto split: prod.splits)
  qed
  then show "a \<le> fst (snd (partition_func lessFn p a b pivot))"
    and "fst (snd (partition_func lessFn p a b pivot)) < b"
    by simp_all
qed

lemma skipNotGreater_ge: "i \<le> skipNotGreater lessFn p a i j"
  by (induction lessFn p a i j rule: skipNotGreater.induct) (subst skipNotGreater.simps, auto)

lemma partitionEqual_loop_ge: "i \<le> snd (partitionEqual_loop lessFn p a i j)"
proof (induction lessFn p a i j rule: partitionEqual_loop.induct)
  case (1 lessFn p a i j)
  define i' where "i' = skipNotGreater lessFn p a i j"
  define j' where "j' = skipGreater lessFn p a i' j"
  have i': "i \<le> i'" by (simp add: i'_def skipNotGreater_ge)
  show ?case
  proof (cases "j' < i'")
    case True
    then show ?thesis
      using i' by (subst partitionEqual_loop.simps) (simp add: Let_def i'_def [symmetric] j'_def [symmetric])
  next
    case False
    from 1 [OF i'_def j'_def False] i' False show ?thesis
      by (subst partitionEqual_loop.simps) (simp add: Let_def i'_def [symmetric] j'_def [symmetric])
  qed
qed

lemma partitionEqual_func_mid: "a < snd (partitionEqual_func lessFn p a b pivot)"
  using partitionEqual_loop_ge [of "a + 1" lessFn "data_Swap p a pivot" a "b - 1"]
  by (simp add: partitionEqual_func_def)

lemma pdqsort_func_returns:
  "b - a < fuel \<Longrightarrow>
     pdqsort_func fuel lessFn p a b limit wasBalanced wasPartitioned \<noteq> None"
proof (induction fuel arbitrary: p a b limit wasBalanced wasPartitioned)
  case 0
  then show ?case by simp
next
  case (Suc fuel)
  show ?case
  proof (cases "b - a \<le> 12 \<or> limit = 0")
    case True
    then show ?thesis by (auto simp: Let_def)
  next
    case False
    then have long: "a + 1 < b" "a < b" by auto
    have eq: "pdqsort_func fuel lessFn q m b l wb wp \<noteq> None" if "a < m" for q m l wb wp
      using Suc.prems long that by (intro Suc.IH) simp
    have left: "pdqsort_func fuel lessFn q a m l wb wp \<noteq> None" if "m < b" for q m l wb wp
      using Suc.prems long that by (intro Suc.IH) simp
    have right: "pdqsort_func fuel lessFn q (m + 1) b l wb wp \<noteq> None" if "a \<le> m"
      for q m l wb wp
      using Suc.prems long that by (intro Suc.IH) simp
    define pl where "pl = (if \<not> wasBalanced then (breakPatterns_func p a b, limit - 1)
                           else (p, limit))"
    obtain p1 l1 where pl: "pl = (p1, l1)" by (cases pl)
    obtain pivot hint where ch: "choosePivot_func lessFn p1 a b = (pivot, hint)"
      by (cases "choosePivot_func lessFn p1 a b")
    define rv where "rv = (if hint = decreasingHint
               then (reverseRange_func p1 a b, (b - 1) - (pivot - a), increasingHint)
               else (p1, pivot, hint))"
    obtain p2 pivot2 hint2 where rv: "rv = (p2, pivot2, hint2)" by (cases rv)
    define pis where "pis = (if wasBalanced \<and> wasPartitioned \<and> hint2 = increasingHint
               then partialInsertionSort_func lessFn p2 a b else (p2, False))"
    obtain p3 finished where pis: "pis = (p3, finished)" by (cases pis)
    obtain p4 mid4 where pe: "partitionEqual_func lessFn p3 a b pivot2 = (p4, mid4)"
      by (cases "partitionEqual_func lessFn p3 a b pivot2")
    obtain p5 mid5 ap where pa: "partition_func lessFn p3 a b pivot2 = (p5, mid5, ap)"
      by (cases "partition_func lessFn p3 a b pivot2")
    have no: "(b - a \<le> 12) = False" "(limit = 0) = False"
      using False by simp_all
    have unf: "pdqsort_func (Suc fuel) lessFn p a b limit wasBalanced wasPartitioned =
       (if finished then Some p3
        else if 0 < a \<and> \<not> data_Less lessFn p3 (a - 1) pivot2
          then pdqsort_func fuel lessFn p4 mid4 b l1 wasBalanced wasPartitioned
        else if mid5 - a < b - mid5 then
          (case pdqsort_func fuel lessFn p5 a mid5 l1 True True of
             None \<Rightarrow> None
           | Some q \<Rightarrow> pdqsort_func fuel lessFn q (mid5 + 1) b l1
                         ((b - a) div 8 \<le> mid5 - a) ap)
        else
          (case pdqsort_func fuel lessFn p5 (mid5 + 1) b l1 True True of
             None \<Rightarrow> None
           | Some q \<Rightarrow> pdqsort_func fuel lessFn q a mid5 l1
                         ((b - a) div 8 \<le> b - mid5) ap))"
      unfolding pdqsort_func.simps Let_def no if_False pl_def [symmetric] pl prod.case ch
        rv_def [symmetric] rv pis_def [symmetric] pis pe pa ..
    from partition_func_mid [OF long(1), of lessFn p3 pivot2] pa
    have mid5: "a \<le> mid5" "mid5 < b" by simp_all
    from partitionEqual_func_mid [of a lessFn p3 b pivot2] pe
    have mid4: "a < mid4" by simp
    obtain ql where ql: "pdqsort_func fuel lessFn p5 a mid5 l1 True True = Some ql"
      using left [OF mid5(2), of p5 l1 True True] by auto
    obtain qr where qr: "pdqsort_func fuel lessFn p5 (mid5 + 1) b l1 True True = Some qr"
      using right [OF mid5(1), of p5 l1 True True] by auto
    show ?thesis
      unfolding unf ql qr option.case
      using eq [OF mid4] left [OF mid5(2)] right [OF mid5(1)]
      by (simp only: split: if_split) simp
  qed
qed

lemma Slice_returns:
  "\<exists>p. pdqsort_func (Suc n) lessFn [0..<n] 0 n (bits_Len n) True True = Some p"
  using pdqsort_func_returns [of n 0 "Suc n" lessFn "[0..<n]" "bits_Len n" True True] by auto

text \<open>On a slice of at most 12 entries the library's sort is the insertion sort of the examples.\<close>

lemma insertionSort_inner_sinkLeft:
  "insertionSort_inner lessFn 0 (length acc) (rev acc @ x # zs) =
     rev (sinkLeft lessFn x acc) @ zs"
proof (induction acc arbitrary: zs)
  case Nil
  show ?case by (subst insertionSort_inner.simps) simp
next
  case (Cons a acc)
  have nth: "(rev acc @ a # x # zs) ! Suc (length acc) = x"
    "(rev acc @ a # x # zs) ! length acc = a"
    by (simp_all add: nth_append)
  have swap: "data_Swap (rev acc @ a # x # zs) (Suc (length acc)) (length acc) =
      rev acc @ x # a # zs"
    by (simp add: data_Swap_def nth list_update_append)
  show ?case
    using Cons.IH [of "a # zs"]
    by (subst insertionSort_inner.simps) (simp add: data_Less_def nth swap)
qed

lemma insertionSort_fold_sinkLeft:
  "length acc = k \<Longrightarrow>
     fold (\<lambda>i q. insertionSort_inner lessFn 0 i q) [k..<n] (rev acc @ [k..<n]) =
       rev (foldl (\<lambda>acc i. sinkLeft lessFn i acc) acc [k..<n])"
proof (induction "n - k" arbitrary: k acc)
  case 0
  then show ?case by simp
next
  case (Suc m)
  then have k: "k < n" and m: "m = n - Suc k" by simp_all
  have "length (sinkLeft lessFn x ps) = Suc (length ps)" for x ps
    by (induction ps) simp_all
  then have len: "length (sinkLeft lessFn k acc) = Suc k"
    using Suc.prems by simp
  show ?case
    using Suc.hyps(1) [OF m len] Suc.prems k
    by (simp add: upt_conv_Cons [OF k] insertionSort_inner_sinkLeft [of lessFn acc k, unfolded Suc.prems])
qed

lemma insertionSort_func_insertionSort:
  "insertionSort_func lessFn [0..<n] 0 n = insertionSort n lessFn"
proof (cases n)
  case 0
  then show ?thesis by (simp add: insertionSort_func_def insertionSort_def)
next
  case (Suc m)
  have "[0..<n] = rev [0] @ [1..<n]"
    using Suc by (simp add: upt_conv_Cons)
  then have "insertionSort_func lessFn [0..<n] 0 n =
      fold (\<lambda>i q. insertionSort_inner lessFn 0 i q) [1..<n] (rev [0] @ [1..<n])"
    by (simp add: insertionSort_func_def)
  also have "\<dots> = rev (foldl (\<lambda>acc i. sinkLeft lessFn i acc) [0] [1..<n])"
    by (rule insertionSort_fold_sinkLeft) simp
  also have "\<dots> = insertionSort n lessFn"
    using Suc by (simp add: insertionSort_def upt_conv_Cons)
  finally show ?thesis .
qed

lemma Slice_short: "n \<le> 12 \<Longrightarrow> Slice n lessFn = insertionSort n lessFn"
  by (simp add: Slice_def Let_def insertionSort_func_insertionSort)

text \<open>What the contract gives for a slice sorted by amount, greatest first.\<close>

lemma sort_Slice_by_amount:
  fixes amt :: "'a \<Rightarrow> int64"
  assumes "sortSliceContract E"
  shows "mset (sort_Slice E xs (\<lambda>a b. amt b <s amt a)) = mset xs"
    and "sorted_wrt (\<lambda>a b. amt b \<le>s amt a) (sort_Slice E xs (\<lambda>a b. amt b <s amt a))"
proof -
  define key :: "nat \<Rightarrow> int" where "key i = - sint (amt (xs ! i))" for i
  define perm where "perm = slicePerm E (length xs) (\<lambda>i j. key i < key j)"
  have less: "(\<lambda>i j. amt (xs ! j) <s amt (xs ! i)) = (\<lambda>i j. key i < key j)"
    by (simp add: key_def word_sless_alt fun_eq_iff)
  have srt: "sort_Slice E xs (\<lambda>a b. amt b <s amt a) = map (\<lambda>i. xs ! i) perm"
    by (simp add: sort_Slice_def less perm_def)
  from assms have p: "mset perm = mset [0..<length xs]" and s: "sorted (map key perm)"
    by (simp_all add: sortSliceContract_def perm_def)
  have "mset (map (\<lambda>i. xs ! i) perm) = image_mset (\<lambda>i. xs ! i) (mset [0..<length xs])"
    unfolding p [symmetric] by simp
  also have "\<dots> = mset (map (\<lambda>i. xs ! i) [0..<length xs])"
    by simp
  also have "\<dots> = mset xs"
    by (simp add: map_nth)
  finally show "mset (sort_Slice E xs (\<lambda>a b. amt b <s amt a)) = mset xs"
    by (simp add: srt)
  have "sorted_wrt (\<lambda>i j. key i \<le> key j) perm"
    using s by (simp add: sorted_map)
  then have "sorted_wrt (\<lambda>i j. amt (xs ! j) \<le>s amt (xs ! i)) perm"
    by (simp add: key_def word_sle_eq)
  then show "sorted_wrt (\<lambda>a b. amt b \<le>s amt a) (sort_Slice E xs (\<lambda>a b. amt b <s amt a))"
    by (simp add: srt sorted_wrt_map)
qed

lemma sorted_wrt_take: "sorted_wrt P xs \<Longrightarrow> sorted_wrt P (take n xs)"
  by (metis append_take_drop_id sorted_wrt_append)

lemma playerEvents_wins:
  "filter (\<lambda>d. \<not> isBet d) (playerEvents k xs) = filter isWin (playerEvents k xs)"
  by (rule filter_cong) (auto simp: playerEvents_def dest: counted_kinds isBet_not_isWin)

lemma report_player_tops:
  assumes "map_of (PlayerStats (generateReport E xs)) k = Some p"
  shows "TopBets p = take 5 (sort_Slice E (map (topBetOf E) (filter isBet (playerEvents k xs)))
                              (\<lambda>a b. TopBet.Amount b <s TopBet.Amount a))"
    and "TopWins p = take 5 (sort_Slice E (map (topWinOf E) (filter isWin (playerEvents k xs)))
                              (\<lambda>a b. TopWin.Amount b <s TopWin.Amount a))"
  unfolding report_player_cases(2) [OF assms]
  by (simp_all add: finalizePlayer_tops fold_player_fields zeroPlayerStat_def playerEvents_wins)

text \<open>
  Claim C5, as the code has it.  Let \<open>sort.Slice\<close> do what its documentation promises.
  Then for every player record of the report the top bets are at most 5, they are in
  descending order of amount, and they are the first 5 entries of the sorted candidate
  list, which is a rearrangement, in descending order of amount, of the candidates appended
  for the accepted bets of the player in stream order; the same holds for the top wins.
  Nothing is promised about the order of candidates with equal amounts.
\<close>

theorem C5_top_lists:
  assumes "sortSliceContract E" and "map_of (PlayerStats (generateReport E xs)) k = Some p"
  shows "length (TopBets p) \<le> 5
   \<and> sorted_wrt (\<lambda>a b. TopBet.Amount b \<le>s TopBet.Amount a) (TopBets p)
   \<and> TopBets p = take 5 (sort_Slice E (map (topBetOf E) (filter isBet (playerEvents k xs)))
                           (\<lambda>a b. TopBet.Amount b <s TopBet.Amount a))
   \<and> mset (sort_Slice E (map (topBetOf E) (filter isBet (playerEvents k xs)))
             (\<lambda>a b. TopBet.Amount b <s TopBet.Amount a)) =
       mset (map (topBetOf E) (filter isBet (playerEvents k xs)))
   \<and> sorted_wrt (\<lambda>a b. TopBet.Amount b \<le>s TopBet.Amount a)
       (sort_Slice E (map (topBetOf E) (filter isBet (playerEvents k xs)))
          (\<lambda>a b. TopBet.Amount b <s TopBet.Amount a))
   \<and> length (TopWins p) \<le> 5
   \<and> sorted_wrt (\<lambda>a b. TopWin.Amount b \<le>s TopWin.Amount a) (TopWins p)
   \<and> TopWins p = take 5 (sort_Slice E (map (topWinOf E) (filter isWin (playerEvents k xs)))
                           (\<lambda>a b. TopWin.Amount b <s TopWin.Amount a))
   \<and> mset (sort_Slice E (map (topWinOf E) (filter isWin (playerEvents k xs)))
             (\<lambda>a b. TopWin.Amount b <s TopWin.Amount a)) =
       mset (map (topWinOf E) (filter isWin (playerEvents k xs)))
   \<and> sorted_wrt (\<lambda>a b. TopWin.Amount b \<le>s TopWin.Amount a)
       (sort_Slice E (map (topWinOf E) (filter isWin (playerEvents k xs)))
          (\<lambda>a b. TopWin.Amount b <s TopWin.Amount a))"
proof -
  note tops = report_player_tops [OF assms(2)]
  note bets = sort_Slice_by_amount [OF assms(1), where amt = TopBet.Amount
      and xs = "map (topBetOf E) (filter isBet (playerEvents k xs))"]
  note wins = sort_Slice_by_amount [OF assms(1), where amt = TopWin.Amount
      and xs = "map (topWinOf E) (filter isWin (playerEvents k xs))"]
  have "length (TopBets p) \<le> 5" "length (TopWins p) \<le> 5"
    by (simp_all add: tops)
  moreover have "sorted_wrt (\<lambda>a b. TopBet.Amount b \<le>s TopBet.Amount a) (TopBets p)"
    unfolding tops by (rule sorted_wrt_take) (rule bets(2))
  moreover have "sorted_wrt (\<lambda>a b. TopWin.Amount b \<le>s TopWin.Amount a) (TopWins p)"
    unfolding tops by (rule sorted_wrt_take) (rule wins(2))
  ultimately show ?thesis
    using tops bets wins by blast
qed

lemma sixBets_events: "playerEvents ''T'' sixBetsStream = sixBetsStream"
  by (rule playerEvents_no_ids) (auto simp: sixBetsStream_def example_defs)

theorem C5_top_lists_witness:
  "sortSliceContract exampleEnv
   \<and> map_of (PlayerStats (generateReport exampleEnv sixBetsStream)) ''T'' \<noteq> None
   \<and> map TopBet.Amount (map (topBetOf exampleEnv) (filter isBet (playerEvents ''T'' sixBetsStream)))
       = [10, 60, 30, 60, 20, 50]
   \<and> map TopBet.Amount
       (TopBets (getPlayer (PlayerStats (generateReport exampleEnv sixBetsStream)) ''T''))
       = [60, 60, 50, 30, 20]
   \<and> map TopBet.RoundID
       (TopBets (getPlayer (PlayerStats (generateReport exampleEnv sixBetsStream)) ''T''))
       = [''r2'', ''r4'', ''r6'', ''r3'', ''r5'']"
proof -
  have ne: "playerEvents ''T'' sixBetsStream \<noteq> []"
    unfolding sixBets_events by (simp add: sixBetsStream_def)
  note ex = report_player_example [OF ne, of exampleEnv]
  have sorted6:
    "sort_Slice exampleEnv (map (topBetOf exampleEnv) (filter isBet sixBetsStream))
       (\<lambda>a b. TopBet.Amount b <s TopBet.Amount a) =
     map (topBetOf exampleEnv)
       [sixBetsStream ! 1, sixBetsStream ! 3, sixBetsStream ! 5, sixBetsStream ! 2,
        sixBetsStream ! 4, sixBetsStream ! 0]"
    by (simp add: sort_Slice_def sixBetsStream_def topBetOf_def example_defs insertionSort_def
        upt_rec)
  show ?thesis
    using C5_top_lists [OF exampleEnv_contract ex] ex exampleEnv_contract
    by (simp add: getPlayer_def sixBets_events sorted6)
       (simp add: sixBetsStream_def topBetOf_def example_defs)
qed

lemma thirteenBets_events: "playerEvents ''A'' thirteenBetsStream = thirteenBetsStream"
  by (rule playerEvents_no_ids) (auto simp: thirteenBetsStream_def example_defs)

lemma thirteenBets_candidates:
  "map (topBetOf goEnv) (filter isBet thirteenBetsStream) =
     map (\<lambda>(rnd, amount).
            \<lparr>TopBet.Amount = amount, TopBet.RoundID = rnd, TopBet.Time = ''<time>''\<rparr>)
       [(''r01'', 50), (''r02'', 100), (''r03'', 100), (''r04'', 100), (''r05'', 100),
        (''r06'', 100), (''r07'', 100), (''r08'', 100), (''r09'', 100), (''r10'', 100),
        (''r11'', 100), (''r12'', 100), (''r13'', 100)]"
  by (simp add: thirteenBetsStream_def topBetOf_def goEnv_def example_defs)

lemma thirteenBets_order:
  "Slice 13 (\<lambda>i j.
      TopBet.Amount
        (map (\<lambda>(rnd, amount).
                \<lparr>TopBet.Amount = amount, TopBet.RoundID = rnd, TopBet.Time = ''<time>''\<rparr>)
           [(''r01'', 50), (''r02'', 100), (''r03'', 100), (''r04'', 100), (''r05'', 100),
            (''r06'', 100), (''r07'', 100), (''r08'', 100), (''r09'', 100), (''r10'', 100),
            (''r11'', 100), (''r12'', 100), (''r13'', 100)] ! j)
      <s TopBet.Amount
        (map (\<lambda>(rnd, amount).
                \<lparr>TopBet.Amount = amount, TopBet.RoundID = rnd, TopBet.Time = ''<time>''\<rparr>)
           [(''r01'', 50), (''r02'', 100), (''r03'', 100), (''r04'', 100), (''r05'', 100),
            (''r06'', 100), (''r07'', 100), (''r08'', 100), (''r09'', 100), (''r10'', 100),
            (''r11'', 100), (''r12'', 100), (''r13'', 100)] ! i))
   = [6, 1, 2, 3, 4, 5, 7, 8, 9, 10, 11, 12, 0]"
  by code_simp

text \<open>
  Claim C5 as stated fails for the order of equal amounts.  Player \<open>A\<close> places thirteen
  bets, the first of 50 and twelve of 100, in the rounds \<open>r01\<close> to \<open>r13\<close>.  A slice of
  thirteen entries is beyond the insertion sort of \<open>sort.Slice\<close>: the pivot, the entry in
  the middle (round \<open>r07\<close>), is exchanged with the first entry, no entry is greater, so it
  stays in front, and the insertion sort of the other twelve moves the bet of 50 to the
  end.  The top bets of the report are five bets of 100, the bet of round \<open>r07\<close> first,
  before the bets of the rounds \<open>r02\<close> to \<open>r05\<close> that were placed before it, and the bet
  of round \<open>r06\<close>, placed before it as well, is not among them.
\<close>

theorem C5_top_lists_counterexample:
  "map TopBet.RoundID
       (map (topBetOf goEnv) (filter isBet (playerEvents ''A'' thirteenBetsStream)))
     = [''r01'', ''r02'', ''r03'', ''r04'', ''r05'', ''r06'', ''r07'', ''r08'', ''r09'',
        ''r10'', ''r11'', ''r12'', ''r13'']
   \<and> map TopBet.Amount
       (map (topBetOf goEnv) (filter isBet (playerEvents ''A'' thirteenBetsStream)))
     = [50, 100, 100, 100, 100, 100, 100, 100, 100, 100, 100, 100, 100]
   \<and> map TopBet.Amount
       (TopBets (getPlayer (PlayerStats (generateReport goEnv thirteenBetsStream)) ''A''))
     = [100, 100, 100, 100, 100]
   \<and> map TopBet.RoundID
       (TopBets (getPlayer (PlayerStats (generateReport goEnv thirteenBetsStream)) ''A''))
     = [''r07'', ''r02'', ''r03'', ''r04'', ''r05'']"
proof -
  define C where "C =
     map (\<lambda>(rnd, amount).
            \<lparr>TopBet.Amount = amount, TopBet.RoundID = rnd, TopBet.Time = ''<time>''\<rparr>)
       [(''r01'', 50), (''r02'', 100), (''r03'', 100), (''r04'', 100), (''r05'', 100),
        (''r06'', 100), (''r07'', 100), (''r08'', 100), (''r09'', 100), (''r10'', 100),
        (''r11'', 100), (''r12'', 100), (''r13'', 100)]"
  have cands: "map (topBetOf goEnv) (filter isBet thirteenBetsStream) = C"
    unfolding C_def by (rule thirteenBets_candidates)
  have order: "Slice 13 (\<lambda>i j. TopBet.Amount (C ! j) <s TopBet.Amount (C ! i)) =
      [6, 1, 2, 3, 4, 5, 7, 8, 9, 10, 11, 12, 0]"
    unfolding C_def by (rule thirteenBets_order)
  have len: "length C = 13" "slicePerm goEnv = Slice"
    by (simp_all add: C_def goEnv_def)
  have ne: "playerEvents ''A'' thirteenBetsStream \<noteq> []"
    unfolding thirteenBets_events by (simp add: thirteenBetsStream_def)
  note ex = report_player_example [OF ne, of goEnv]
  have tops:
    "TopBets (getPlayer (PlayerStats (generateReport goEnv thirteenBetsStream)) ''A'') =
      take 5 (sort_Slice goEnv C (\<lambda>a b. TopBet.Amount b <s TopBet.Amount a))"
    using report_player_tops(1) [OF ex] by (simp add: getPlayer_def ex thirteenBets_events cands)
  have sorted13:
    "sort_Slice goEnv C (\<lambda>a b. TopBet.Amount b <s TopBet.Amount a) =
     map (\<lambda>i. C ! i) [6, 1, 2, 3, 4, 5, 7, 8, 9, 10, 11, 12, 0]"
    by (simp only: sort_Slice_def len order)
  show ?thesis
    unfolding tops sorted13 thirteenBets_events cands by (simp add: C_def)
qed
section \<open>Identifiers are counted once\<close>

lemma hourFigures_update:
  "hourFigures (AList.update h t m) h' =
     (if h' = h
      then (TimeStat.TotalBets t, TimeStat.TotalWins t,
            TimeStat.TotalBetAmount t, TimeStat.TotalWinAmount t)
      else hourFigures m h')"
  by (simp add: hourFigures_def getTime_def update_conv')

lemma countBet_timeStats:
  "timeStats (countBet E d s) =
     AList.update (hourOf E d)
       ((getTime (timeStats s) (hourOf E d))
          \<lparr>TimeStat.TotalBets := TimeStat.TotalBets (getTime (timeStats s) (hourOf E d)) + 1,
           TimeStat.TotalBetAmount :=
             TimeStat.TotalBetAmount (getTime (timeStats s) (hourOf E d)) + Bet d\<rparr>)
       (timeStats s)"
  by (simp add: countBet_def Let_def)

lemma countWin_timeStats:
  "timeStats (countWin E d s) =
     AList.update (hourOf E d)
       ((getTime (timeStats s) (hourOf E d))
          \<lparr>TimeStat.TotalWins := TimeStat.TotalWins (getTime (timeStats s) (hourOf E d)) + 1,
           TimeStat.TotalWinAmount :=
             TimeStat.TotalWinAmount (getTime (timeStats s) (hourOf E d)) + Win d\<rparr>)
       (timeStats s)"
  by (simp add: countWin_def Let_def)

lemma hourFigures_countBet:
  "hourFigures (timeStats (countBet E d s)) h =
     (case hourFigures (timeStats s) h of (b, w, ba, wa) \<Rightarrow>
        if h = hourOf E d then (b + 1, w, ba + Bet d, wa) else (b, w, ba, wa))"
  by (simp add: countBet_timeStats hourFigures_update) (simp add: hourFigures_def Let_def)

lemma hourFigures_countWin:
  "hourFigures (timeStats (countWin E d s)) h =
     (case hourFigures (timeStats s) h of (b, w, ba, wa) \<Rightarrow>
        if h = hourOf E d then (b, w + 1, ba, wa + Win d) else (b, w, ba, wa))"
  by (simp add: countWin_timeStats hourFigures_update) (simp add: hourFigures_def Let_def)

lemma step_freshBet_timeStats:
  "freshBet s d \<Longrightarrow> \<exists>s'. timeStats s' = timeStats (observe E d s) \<and>
     timeStats (step E d s) = timeStats (countBet E d s')"
  by (auto simp: step_def freshBet_def isBet_def Let_def countBet_timeStats
      intro!: exI [of _ "observe E d s"])

lemma step_freshWin_timeStats:
  "freshWin s d \<Longrightarrow> \<exists>s'. timeStats s' = timeStats (observe E d s) \<and>
     timeStats (step E d s) = timeStats (countWin E d s')"
  by (auto simp: step_def freshWin_def isWin_def Let_def countWin_timeStats
      intro!: exI [of _ "observe E d s"])

lemma step_hourFigures_freshBet:
  assumes "freshBet s d"
  shows "hourFigures (timeStats (step E d s)) h =
     (case hourFigures (timeStats s) h of (b, w, ba, wa) \<Rightarrow>
        if h = hourOf E d then (b + 1, w, ba + Bet d, wa) else (b, w, ba, wa))"
proof -
  from step_freshBet_timeStats [OF assms, of E] obtain s'
    where a: "timeStats s' = timeStats (observe E d s)"
      and b: "timeStats (step E d s) = timeStats (countBet E d s')"
    by blast
  show ?thesis
    unfolding b hourFigures_countBet a hourFigures_observe ..
qed

lemma step_hourFigures_freshWin:
  assumes "freshWin s d"
  shows "hourFigures (timeStats (step E d s)) h =
     (case hourFigures (timeStats s) h of (b, w, ba, wa) \<Rightarrow>
        if h = hourOf E d then (b, w + 1, ba, wa + Win d) else (b, w, ba, wa))"
proof -
  from step_freshWin_timeStats [OF assms, of E] obtain s'
    where a: "timeStats s' = timeStats (observe E d s)"
      and b: "timeStats (step E d s) = timeStats (countWin E d s')"
    by blast
  show ?thesis
    unfolding b hourFigures_countWin a hourFigures_observe ..
qed

lemma fresh_step_bet:
  assumes "freshBet s d"
  shows "totalBets (step E d s) = totalBets s + 1"
    "totalBetAmount (step E d s) = totalBetAmount s + Bet d"
    "totalWins (step E d s) = totalWins s" "totalWinAmount (step E d s) = totalWinAmount s"
    "getPlayer (playerStats (step E d s)) (PlayerID d) =
       playerBet E d (getPlayer (playerStats s) (PlayerID d))"
    "getGame (gameStats (step E d s)) (GameID d) = gameBet d (getGame (gameStats s) (GameID d))"
    "duplicateBets (step E d s) = duplicateBets s" "duplicateWins (step E d s) = duplicateWins s"
  using assms fresh_exclusive [OF assms]
  by (auto simp: step_totals step_playerStats step_gameStats' getPlayer_update getGame_update
      step_duplicates gameApply_def freshBet_def dupBet_def dupWin_def dest: isBet_not_isWin)

lemma fresh_step_win:
  assumes "freshWin s d"
  shows "totalWins (step E d s) = totalWins s + 1"
    "totalWinAmount (step E d s) = totalWinAmount s + Win d"
    "totalBets (step E d s) = totalBets s" "totalBetAmount (step E d s) = totalBetAmount s"
    "getPlayer (playerStats (step E d s)) (PlayerID d) =
       playerWin E d (getPlayer (playerStats s) (PlayerID d))"
    "getGame (gameStats (step E d s)) (GameID d) = gameWin d (getGame (gameStats s) (GameID d))"
    "duplicateBets (step E d s) = duplicateBets s" "duplicateWins (step E d s) = duplicateWins s"
  using assms
  by (auto simp: step_totals step_playerStats step_gameStats' getPlayer_update getGame_update
      step_duplicates gameApply_def freshBet_def freshWin_def dupBet_def dupWin_def
      dest: isBet_not_isWin)

lemma scenario_duplicates:
  "duplicateBets (aggregate E scenarioStream) = 1"
  "duplicateWins (aggregate E scenarioStream) = 0"
  by (simp_all add: aggregate_def scenarioStream_def step_duplicates step_ledger initState_def
      example_defs)

lemma rtpPercent_one_to_two:
  assumes e: "f64 E 50 = 50" "f64 E 100 = 100" "f64 E (1 / 2) = 1 / 2"
  shows "rtpPercent E 50 100 = 50"
proof -
  have n: "real_of_int (sint (50 :: int64)) = 50" "real_of_int (sint (100 :: int64)) = 100"
    by simp_all
  have q: "(50 :: real) / 100 = 1 / 2" and m: "(1 / 2 :: real) * 100 = 50"
    by simp_all
  show ?thesis
    unfolding rtpPercent_def n e q m ..
qed

lemma scenario_player:
  "map_of (PlayerStats (generateReport E scenarioStream)) ''A'' \<noteq> None"
  "PlayerStat.NetResult (getPlayer (PlayerStats (generateReport E scenarioStream)) ''A'') = - 50"
  "f64 E 50 = 50 \<Longrightarrow> f64 E 100 = 100 \<Longrightarrow> f64 E (1 / 2) = 1 / 2 \<Longrightarrow>
     PlayerStat.RTP (getPlayer (PlayerStats (generateReport E scenarioStream)) ''A'') = 50"
proof -
  have ne: "playerEvents ''A'' scenarioStream \<noteq> []"
    unfolding scenario_events by simp
  note ex = report_player_example [OF ne, of E, unfolded scenario_events]
  show "map_of (PlayerStats (generateReport E scenarioStream)) ''A'' \<noteq> None"
    by (simp add: ex)
  have amounts:
    "PlayerStat.TotalBetAmount (fold (playerApply E)
       [betEvent ''A'' ''g1'' ''r1'' 100 ''b1'' 900 1000,
        winEvent ''A'' ''g1'' ''r1'' 50 ''w1'' 950 1002] zeroPlayerStat) = 100"
    "PlayerStat.TotalWinAmount (fold (playerApply E)
       [betEvent ''A'' ''g1'' ''r1'' 100 ''b1'' 900 1000,
        winEvent ''A'' ''g1'' ''r1'' 50 ''w1'' 950 1002] zeroPlayerStat) = 50"
    unfolding fold_player_fields by (simp_all add: zeroPlayerStat_def example_defs)
  show "PlayerStat.NetResult (getPlayer (PlayerStats (generateReport E scenarioStream)) ''A'') = - 50"
    unfolding getPlayer_def ex option.case finalizePlayer_derived amounts by simp
  show "PlayerStat.RTP (getPlayer (PlayerStats (generateReport E scenarioStream)) ''A'') = 50"
    if "f64 E 50 = 50" "f64 E 100 = 100" "f64 E (1 / 2) = 1 / 2"
    unfolding getPlayer_def ex option.case finalizePlayer_derived amounts
    using rtpPercent_one_to_two [OF that] by (simp add: word_sless_alt)
qed

text \<open>
  Claim C1, as the code has it.  Among the entries that pass the guard of the bet branch
  (message \<open>SendBet\<close>, positive amount) and carry a given non-empty bet identifier, the
  first one of the stream is counted: it adds one bet and its amount to the global totals,
  to the record of its player, where its candidate is appended to the top bets, to the
  record of its game and to its hour bucket.  Every later one leaves the global totals,
  the player records, the game records and the figures of every hour bucket as they were
  and adds one to the count of duplicate bets.  The same holds for the entries that pass
  the guard of the win branch and the win identifiers.  An entry that passes neither
  guard, such as a bet entry with an amount of zero or less, is inert: it leaves the
  totals, the records and the hour figures as they were, its identifier enters neither
  ledger, and neither count of duplicates changes.  The stream of the scenario yields
  one bet of 100, one win of 50 and one duplicate bet, a net result of -50 for player \<open>A\<close>,
  and an RTP of 50, given that 50, 100 and one half are \<open>float64\<close> values, as they are.
\<close>

theorem C1_identifiers_counted_once:
  "(isBet d \<and> BetID d \<noteq> '''' \<and> (\<exists>e\<in>set pre. isBet e \<and> BetID e = BetID d) \<longrightarrow>
      totalBets (aggregate E (pre @ [d])) = totalBets (aggregate E pre)
      \<and> totalBetAmount (aggregate E (pre @ [d])) = totalBetAmount (aggregate E pre)
      \<and> totalWins (aggregate E (pre @ [d])) = totalWins (aggregate E pre)
      \<and> totalWinAmount (aggregate E (pre @ [d])) = totalWinAmount (aggregate E pre)
      \<and> playerStats (aggregate E (pre @ [d])) = playerStats (aggregate E pre)
      \<and> gameStats (aggregate E (pre @ [d])) = gameStats (aggregate E pre)
      \<and> (\<forall>h. hourFigures (timeStats (aggregate E (pre @ [d]))) h =
              hourFigures (timeStats (aggregate E pre)) h)
      \<and> duplicateBets (aggregate E (pre @ [d])) = duplicateBets (aggregate E pre) + 1)
   \<and> (isBet d \<and> BetID d \<noteq> '''' \<and> (\<forall>e\<in>set pre. \<not> (isBet e \<and> BetID e = BetID d)) \<longrightarrow>
      totalBets (aggregate E (pre @ [d])) = totalBets (aggregate E pre) + 1
      \<and> totalBetAmount (aggregate E (pre @ [d])) = totalBetAmount (aggregate E pre) + Bet d
      \<and> getPlayer (playerStats (aggregate E (pre @ [d]))) (PlayerID d) =
          playerBet E d (getPlayer (playerStats (aggregate E pre)) (PlayerID d))
      \<and> getGame (gameStats (aggregate E (pre @ [d]))) (GameID d) =
          gameBet d (getGame (gameStats (aggregate E pre)) (GameID d))
      \<and> hourFigures (timeStats (aggregate E (pre @ [d]))) (hourOf E d) =
          (case hourFigures (timeStats (aggregate E pre)) (hourOf E d) of
             (b, w, ba, wa) \<Rightarrow> (b + 1, w, ba + Bet d, wa))
      \<and> duplicateBets (aggregate E (pre @ [d])) = duplicateBets (aggregate E pre))
   \<and> (isWin d \<and> WinID d \<noteq> '''' \<and> (\<exists>e\<in>set pre. isWin e \<and> WinID e = WinID d) \<longrightarrow>
      totalBets (aggregate E (pre @ [d])) = totalBets (aggregate E pre)
      \<and> totalBetAmount (aggregate E (pre @ [d])) = totalBetAmount (aggregate E pre)
      \<and> totalWins (aggregate E (pre @ [d])) = totalWins (aggregate E pre)
      \<and> totalWinAmount (aggregate E (pre @ [d])) = totalWinAmount (aggregate E pre)
      \<and> playerStats (aggregate E (pre @ [d])) = playerStats (aggregate E pre)
      \<and> gameStats (aggregate E (pre @ [d])) = gameStats (aggregate E pre)
      \<and> (\<forall>h. hourFigures (timeStats (aggregate E (pre @ [d]))) h =
              hourFigures (timeStats (aggregate E pre)) h)
      \<and> duplicateWins (aggregate E (pre @ [d])) = duplicateWins (aggregate E pre) + 1)
   \<and> (isWin d \<and> WinID d \<noteq> '''' \<and> (\<forall>e\<in>set pre. \<not> (isWin e \<and> WinID e = WinID d)) \<longrightarrow>
      totalWins (aggregate E (pre @ [d])) = totalWins (aggregate E pre) + 1
      \<and> totalWinAmount (aggregate E (pre @ [d])) = totalWinAmount (aggregate E pre) + Win d
      \<and> getPlayer (playerStats (aggregate E (pre @ [d]))) (PlayerID d) =
          playerWin E d (getPlayer (playerStats (aggregate E pre)) (PlayerID d))
      \<and> getGame (gameStats (aggregate E (pre @ [d]))) (GameID d) =
          gameWin d (getGame (gameStats (aggregate E pre)) (GameID d))
      \<and> hourFigures (timeStats (aggregate E (pre @ [d]))) (hourOf E d) =
          (case hourFigures (timeStats (aggregate E pre)) (hourOf E d) of
             (b, w, ba, wa) \<Rightarrow> (b, w + 1, ba, wa + Win d))
      \<and> duplicateWins (aggregate E (pre @ [d])) = duplicateWins (aggregate E pre))
   \<and> (\<not> isBet d \<and> \<not> isWin d \<longrightarrow>
      totalBets (aggregate E (pre @ [d])) = totalBets (aggregate E pre)
      \<and> totalBetAmount (aggregate E (pre @ [d])) = totalBetAmount (aggregate E pre)
      \<and> totalWins (aggregate E (pre @ [d])) = totalWins (aggregate E pre)
      \<and> totalWinAmount (aggregate E (pre @ [d])) = totalWinAmount (aggregate E pre)
      \<and> playerStats (aggregate E (pre @ [d])) = playerStats (aggregate E pre)
      \<and> gameStats (aggregate E (pre @ [d])) = gameStats (aggregate E pre)
      \<and> (\<forall>h. hourFigures (timeStats (aggregate E (pre @ [d]))) h =
              hourFigures (timeStats (aggregate E pre)) h)
      \<and> uniqueBetIDs (aggregate E (pre @ [d])) = uniqueBetIDs (aggregate E pre)
      \<and> uniqueWinIDs (aggregate E (pre @ [d])) = uniqueWinIDs (aggregate E pre)
      \<and> duplicateBets (aggregate E (pre @ [d])) = duplicateBets (aggregate E pre)
      \<and> duplicateWins (aggregate E (pre @ [d])) = duplicateWins (aggregate E pre))
   \<and> Summary.TotalBets (Summary (generateReport E scenarioStream)) = 1
   \<and> Summary.TotalBetAmount (Summary (generateReport E scenarioStream)) = 100
   \<and> Summary.TotalWins (Summary (generateReport E scenarioStream)) = 1
   \<and> Summary.TotalWinAmount (Summary (generateReport E scenarioStream)) = 50
   \<and> duplicateBets (aggregate E scenarioStream) = 1
   \<and> map_of (PlayerStats (generateReport E scenarioStream)) ''A'' \<noteq> None
   \<and> PlayerStat.NetResult (getPlayer (PlayerStats (generateReport E scenarioStream)) ''A'') = - 50
   \<and> (f64 E 50 = 50 \<and> f64 E 100 = 100 \<and> f64 E (1 / 2) = 1 / 2 \<longrightarrow>
        PlayerStat.RTP (getPlayer (PlayerStats (generateReport E scenarioStream)) ''A'') = 50)"
proof -
  have dupB: "totalBets (aggregate E (pre @ [d])) = totalBets (aggregate E pre)
      \<and> totalBetAmount (aggregate E (pre @ [d])) = totalBetAmount (aggregate E pre)
      \<and> totalWins (aggregate E (pre @ [d])) = totalWins (aggregate E pre)
      \<and> totalWinAmount (aggregate E (pre @ [d])) = totalWinAmount (aggregate E pre)
      \<and> playerStats (aggregate E (pre @ [d])) = playerStats (aggregate E pre)
      \<and> gameStats (aggregate E (pre @ [d])) = gameStats (aggregate E pre)
      \<and> (\<forall>h. hourFigures (timeStats (aggregate E (pre @ [d]))) h =
              hourFigures (timeStats (aggregate E pre)) h)
      \<and> duplicateBets (aggregate E (pre @ [d])) = duplicateBets (aggregate E pre) + 1"
    if h: "isBet d \<and> BetID d \<noteq> '''' \<and> (\<exists>e\<in>set pre. isBet e \<and> BetID e = BetID d)"
  proof -
    from h have dup: "dupBet (aggregate E pre) d" by (simp add: dupBet_aggregate)
    then have dup': "dupBet (aggregate E pre) d \<or> dupWin (aggregate E pre) d" by simp
    show ?thesis
      unfolding aggregate_snoc
      using dup by (simp add: dup_step_frame [OF dup'] step_duplicates)
  qed
  have dupW: "totalBets (aggregate E (pre @ [d])) = totalBets (aggregate E pre)
      \<and> totalBetAmount (aggregate E (pre @ [d])) = totalBetAmount (aggregate E pre)
      \<and> totalWins (aggregate E (pre @ [d])) = totalWins (aggregate E pre)
      \<and> totalWinAmount (aggregate E (pre @ [d])) = totalWinAmount (aggregate E pre)
      \<and> playerStats (aggregate E (pre @ [d])) = playerStats (aggregate E pre)
      \<and> gameStats (aggregate E (pre @ [d])) = gameStats (aggregate E pre)
      \<and> (\<forall>h. hourFigures (timeStats (aggregate E (pre @ [d]))) h =
              hourFigures (timeStats (aggregate E pre)) h)
      \<and> duplicateWins (aggregate E (pre @ [d])) = duplicateWins (aggregate E pre) + 1"
    if h: "isWin d \<and> WinID d \<noteq> '''' \<and> (\<exists>e\<in>set pre. isWin e \<and> WinID e = WinID d)"
  proof -
    from h have dup: "dupWin (aggregate E pre) d" by (simp add: dupWin_aggregate)
    then have dup': "dupBet (aggregate E pre) d \<or> dupWin (aggregate E pre) d" by simp
    show ?thesis
      unfolding aggregate_snoc
      using dup by (simp add: dup_step_frame [OF dup'] step_duplicates)
  qed
  have freshB: "totalBets (aggregate E (pre @ [d])) = totalBets (aggregate E pre) + 1
      \<and> totalBetAmount (aggregate E (pre @ [d])) = totalBetAmount (aggregate E pre) + Bet d
      \<and> getPlayer (playerStats (aggregate E (pre @ [d]))) (PlayerID d) =
          playerBet E d (getPlayer (playerStats (aggregate E pre)) (PlayerID d))
      \<and> getGame (gameStats (aggregate E (pre @ [d]))) (GameID d) =
          gameBet d (getGame (gameStats (aggregate E pre)) (GameID d))
      \<and> hourFigures (timeStats (aggregate E (pre @ [d]))) (hourOf E d) =
          (case hourFigures (timeStats (aggregate E pre)) (hourOf E d) of
             (b, w, ba, wa) \<Rightarrow> (b + 1, w, ba + Bet d, wa))
      \<and> duplicateBets (aggregate E (pre @ [d])) = duplicateBets (aggregate E pre)"
    if h: "isBet d \<and> BetID d \<noteq> '''' \<and> (\<forall>e\<in>set pre. \<not> (isBet e \<and> BetID e = BetID d))"
  proof -
    from h have f: "freshBet (aggregate E pre) d" by (simp add: freshBet_aggregate)
    show ?thesis
      unfolding aggregate_snoc
      by (simp add: fresh_step_bet [OF f] step_hourFigures_freshBet [OF f])
  qed
  have freshW: "totalWins (aggregate E (pre @ [d])) = totalWins (aggregate E pre) + 1
      \<and> totalWinAmount (aggregate E (pre @ [d])) = totalWinAmount (aggregate E pre) + Win d
      \<and> getPlayer (playerStats (aggregate E (pre @ [d]))) (PlayerID d) =
          playerWin E d (getPlayer (playerStats (aggregate E pre)) (PlayerID d))
      \<and> getGame (gameStats (aggregate E (pre @ [d]))) (GameID d) =
          gameWin d (getGame (gameStats (aggregate E pre)) (GameID d))
      \<and> hourFigures (timeStats (aggregate E (pre @ [d]))) (hourOf E d) =
          (case hourFigures (timeStats (aggregate E pre)) (hourOf E d) of
             (b, w, ba, wa) \<Rightarrow> (b, w + 1, ba, wa + Win d))
      \<and> duplicateWins (aggregate E (pre @ [d])) = duplicateWins (aggregate E pre)"
    if h: "isWin d \<and> WinID d \<noteq> '''' \<and> (\<forall>e\<in>set pre. \<not> (isWin e \<and> WinID e = WinID d))"
  proof -
    from h have f: "freshWin (aggregate E pre) d" by (simp add: freshWin_aggregate)
    show ?thesis
      unfolding aggregate_snoc
      by (simp add: fresh_step_win [OF f] step_hourFigures_freshWin [OF f])
  qed
  have inert: "totalBets (aggregate E (pre @ [d])) = totalBets (aggregate E pre)
      \<and> totalBetAmount (aggregate E (pre @ [d])) = totalBetAmount (aggregate E pre)
      \<and> totalWins (aggregate E (pre @ [d])) = totalWins (aggregate E pre)
      \<and> totalWinAmount (aggregate E (pre @ [d])) = totalWinAmount (aggregate E pre)
      \<and> playerStats (aggregate E (pre @ [d])) = playerStats (aggregate E pre)
      \<and> gameStats (aggregate E (pre @ [d])) = gameStats (aggregate E pre)
      \<and> (\<forall>h. hourFigures (timeStats (aggregate E (pre @ [d]))) h =
              hourFigures (timeStats (aggregate E pre)) h)
      \<and> uniqueBetIDs (aggregate E (pre @ [d])) = uniqueBetIDs (aggregate E pre)
      \<and> uniqueWinIDs (aggregate E (pre @ [d])) = uniqueWinIDs (aggregate E pre)
      \<and> duplicateBets (aggregate E (pre @ [d])) = duplicateBets (aggregate E pre)
      \<and> duplicateWins (aggregate E (pre @ [d])) = duplicateWins (aggregate E pre)"
    if h: "\<not> isBet d \<and> \<not> isWin d"
    unfolding aggregate_snoc using h by (simp add: step_inert hourFigures_observe)
  have totals: "Summary.TotalBets (Summary (generateReport E scenarioStream)) = 1"
    "Summary.TotalBetAmount (Summary (generateReport E scenarioStream)) = 100"
    "Summary.TotalWins (Summary (generateReport E scenarioStream)) = 1"
    "Summary.TotalWinAmount (Summary (generateReport E scenarioStream)) = 50"
    by (simp_all add: report_summary summary_totals aggregate_bet_totals aggregate_win_totals
        scenario_accepted betEvent_def winEvent_def)
  show ?thesis
    using dupB dupW freshB freshW inert totals scenario_duplicates(1) [of E]
      scenario_player [of E]
    by blast
qed

theorem C1_identifiers_counted_once_witness:
  "isBet replayedBet \<and> BetID replayedBet \<noteq> '''' \<and> isBet firstBet
   \<and> BetID firstBet = BetID replayedBet
   \<and> totalBets (aggregate exampleEnv ([] @ [firstBet])) = 1
   \<and> totalBetAmount (aggregate exampleEnv ([] @ [firstBet])) = 100
   \<and> totalBets (aggregate exampleEnv ([firstBet] @ [replayedBet])) = 1
   \<and> totalBetAmount (aggregate exampleEnv ([firstBet] @ [replayedBet])) = 100
   \<and> duplicateBets (aggregate exampleEnv ([firstBet] @ [replayedBet])) = 1
   \<and> \<not> isBet zeroBet \<and> \<not> isWin zeroBet
   \<and> uniqueBetIDs (aggregate exampleEnv ([] @ [zeroBet])) = {}
   \<and> totalBets (aggregate exampleEnv ([firstBet] @ [zeroBet])) = 1
   \<and> uniqueBetIDs (aggregate exampleEnv ([firstBet] @ [zeroBet])) =
       uniqueBetIDs (aggregate exampleEnv [firstBet])
   \<and> duplicateBets (aggregate exampleEnv ([firstBet] @ [zeroBet])) = 0
   \<and> f64 exampleEnv 50 = 50 \<and> f64 exampleEnv 100 = 100 \<and> f64 exampleEnv (1 / 2) = 1 / 2
   \<and> PlayerStat.RTP (getPlayer (PlayerStats (generateReport exampleEnv scenarioStream)) ''A'') = 50"
proof -
  have guards: "isBet replayedBet" "BetID replayedBet \<noteq> ''''" "isBet firstBet"
    "BetID firstBet = BetID replayedBet" "BetID firstBet \<noteq> ''''"
    by (simp_all add: firstBet_def replayedBet_def example_defs)
  have exact: "f64 exampleEnv 50 = 50" "f64 exampleEnv 100 = 100"
    "f64 exampleEnv (1 / 2) = 1 / 2"
    by (simp_all add: exampleEnv_def)
  have start: "totalBets (aggregate exampleEnv []) = 0" "totalBetAmount (aggregate exampleEnv []) = 0"
    "duplicateBets (aggregate exampleEnv []) = 0" "Bet firstBet = 100"
    by (simp_all add: aggregate_Nil initState_def firstBet_def betEvent_def)
  have first: "totalBets (aggregate exampleEnv ([] @ [firstBet])) = 1"
    "totalBetAmount (aggregate exampleEnv ([] @ [firstBet])) = 100"
    "duplicateBets (aggregate exampleEnv ([] @ [firstBet])) = 0"
    using C1_identifiers_counted_once [of firstBet "[]" exampleEnv] guards start by simp_all
  have "totalBets (aggregate exampleEnv ([firstBet] @ [replayedBet])) = 1
     \<and> totalBetAmount (aggregate exampleEnv ([firstBet] @ [replayedBet])) = 100
     \<and> duplicateBets (aggregate exampleEnv ([firstBet] @ [replayedBet])) = 1"
    using C1_identifiers_counted_once [of replayedBet "[firstBet]" exampleEnv] guards first
    by simp
  moreover have idle: "\<not> isBet zeroBet" "\<not> isWin zeroBet"
    by (simp_all add: zeroBet_def example_defs)
  moreover have "uniqueBetIDs (aggregate exampleEnv ([] @ [zeroBet])) = {}"
    using C1_identifiers_counted_once [of zeroBet "[]" exampleEnv] idle
    by (simp add: aggregate_Nil initState_def)
  moreover have "totalBets (aggregate exampleEnv ([firstBet] @ [zeroBet])) = 1
     \<and> uniqueBetIDs (aggregate exampleEnv ([firstBet] @ [zeroBet])) =
         uniqueBetIDs (aggregate exampleEnv [firstBet])
     \<and> duplicateBets (aggregate exampleEnv ([firstBet] @ [zeroBet])) = 0"
    using C1_identifiers_counted_once [of zeroBet "[firstBet]" exampleEnv] idle first
    by simp
  moreover have
    "PlayerStat.RTP (getPlayer (PlayerStats (generateReport exampleEnv scenarioStream)) ''A'') = 50"
    using C1_identifiers_counted_once [of firstBet "[]" exampleEnv] exact by blast
  ultimately show ?thesis
    using guards exact first by simp
qed

text \<open>
  Claim C1 as stated fails for bet entries without a stake.  The entry \<open>zeroBet\<close> has the
  message of a bet and the identifier of \<open>firstBet\<close>.  Repeated, it is a later bet entry
  with the same identifier and the count of duplicate bets stays at 0.  Placed before
  \<open>firstBet\<close>, it is not counted and the later entry with its identifier is; placed after
  \<open>firstBet\<close>, it is a later entry with the identifier of a counted bet and the count of
  duplicate bets stays at 0.
\<close>

theorem C1_identifiers_counted_once_counterexample:
  "Message zeroBet = ''SendBet'' \<and> Message firstBet = ''SendBet''
   \<and> BetID zeroBet = ''b1'' \<and> BetID firstBet = ''b1''
   \<and> duplicateBets (aggregate exampleEnv [zeroBet, zeroBet]) = 0
   \<and> totalBets (aggregate exampleEnv [zeroBet]) = 0
   \<and> totalBets (aggregate exampleEnv [zeroBet, firstBet]) = 1
   \<and> totalBetAmount (aggregate exampleEnv [zeroBet, firstBet]) = 100
   \<and> duplicateBets (aggregate exampleEnv [zeroBet, firstBet]) = 0
   \<and> totalBets (aggregate exampleEnv [firstBet, zeroBet]) = 1
   \<and> duplicateBets (aggregate exampleEnv [firstBet]) = 0
   \<and> duplicateBets (aggregate exampleEnv [firstBet, zeroBet]) = 0"
  by (simp add: zeroBet_def firstBet_def example_defs model_defs)

end
